theory Spec2Isabelle
  imports Complex_Main
begin

section \<open>Noise synthesis: \<^verbatim>\<open>createBrownNoise\<close>\<close>

text \<open>
  The component \<^verbatim>\<open>src/lib/BrownNoiseGenerator.svelte\<close> fills a one-channel
  \<^verbatim>\<open>AudioBuffer\<close> of \<^verbatim>\<open>duration * sampleRate\<close> samples with a leaky
  integrator over white noise. This first loop computes over the mathematical reals, with
  no rounding; the rounding of IEEE doubles and of the \<^verbatim>\<open>Float32Array\<close> behind the
  channel data is added in \<open>createBrownNoise_loop_fp\<close> further down. The pseudo-random
  generator is an input: \<open>random i\<close> is the value the
  \<open>i\<close>-th call of \<^verbatim>\<open>Math.random()\<close> returns during the invocation (the loop makes
  exactly one call per iteration). The channel data starts as zeros, as a fresh
  \<^verbatim>\<open>AudioBuffer\<close> does.
\<close>

function createBrownNoise_loop ::
  "(nat \<Rightarrow> real) \<Rightarrow> nat \<Rightarrow> nat \<Rightarrow> real \<Rightarrow> real list \<Rightarrow> real list" where
  "createBrownNoise_loop random bufferSize i lastOut data =
     (if i < bufferSize then
        (let white = random i * 2 - 1;
             data1 = data[i := (lastOut + 0.02 * white) / 1.02];
             lastOut1 = data1 ! i;
             data2 = data1[i := data1 ! i * 3.5]
         in createBrownNoise_loop random bufferSize (i + 1) lastOut1 data2)
      else data)"
  by pat_completeness auto
termination
  by (relation "measure (\<lambda>(random, bufferSize, i, lastOut, data). bufferSize - i)") auto

declare createBrownNoise_loop.simps [simp del]

definition createBrownNoise :: "nat \<Rightarrow> nat \<Rightarrow> (nat \<Rightarrow> real) \<Rightarrow> real list" where
  "createBrownNoise duration sampleRate random =
     (let bufferSize = duration * sampleRate
      in createBrownNoise_loop random bufferSize 0 0 (replicate bufferSize 0))"

text \<open>
  The filter state after \<open>k\<close> iterations of the loop (the variable \<^verbatim>\<open>lastOut\<close>), written
  as the recurrence the loop body computes before it scales the stored sample by 3.5.
\<close>

fun lastOut_after :: "(nat \<Rightarrow> real) \<Rightarrow> nat \<Rightarrow> real" where
  "lastOut_after random 0 = 0"
| "lastOut_after random (Suc k) = (lastOut_after random k + 0.02 * (random k * 2 - 1)) / 1.02"

text \<open>
  The same loop with the rounding of the program's arithmetic made explicit. The source
  computes in IEEE doubles and keeps the samples in a \<^verbatim>\<open>Float32Array\<close>: \<open>dbl\<close> is the
  rounding to a double of the result of one arithmetic operation (and of the decimal
  literals 0.02 and 1.02; 1, 2 and 3.5 are doubles), \<open>f32\<close> the rounding of a store into
  the array, and reading the array back (\<^verbatim>\<open>lastOut = data[i]\<close>, \<^verbatim>\<open>data[i] *= 3.5\<close>) yields
  the stored value. Both are parameters: any pair of functions on the reals.
  \<open>createBrownNoise_loop\<close> above is this loop with no rounding at all.
\<close>

function createBrownNoise_loop_fp ::
  "(real \<Rightarrow> real) \<Rightarrow> (real \<Rightarrow> real) \<Rightarrow> (nat \<Rightarrow> real) \<Rightarrow> nat \<Rightarrow> nat \<Rightarrow> real \<Rightarrow> real list
     \<Rightarrow> real list" where
  "createBrownNoise_loop_fp f32 dbl random bufferSize i lastOut data =
     (if i < bufferSize then
        (let white = dbl (dbl (random i * 2) - 1);
             data1 = data[i := f32 (dbl (dbl (lastOut + dbl (dbl 0.02 * white)) / dbl 1.02))];
             lastOut1 = data1 ! i;
             data2 = data1[i := f32 (dbl (data1 ! i * 3.5))]
         in createBrownNoise_loop_fp f32 dbl random bufferSize (i + 1) lastOut1 data2)
      else data)"
  by pat_completeness auto
termination
  by (relation "measure (\<lambda>(f32, dbl, random, bufferSize, i, lastOut, data). bufferSize - i)") auto

declare createBrownNoise_loop_fp.simps [simp del]

definition createBrownNoise_fp ::
  "(real \<Rightarrow> real) \<Rightarrow> (real \<Rightarrow> real) \<Rightarrow> nat \<Rightarrow> nat \<Rightarrow> (nat \<Rightarrow> real) \<Rightarrow> real list" where
  "createBrownNoise_fp f32 dbl duration sampleRate random =
     (let bufferSize = duration * sampleRate
      in createBrownNoise_loop_fp f32 dbl random bufferSize 0 0 (replicate bufferSize 0))"

text \<open>The filter state \<^verbatim>\<open>lastOut\<close> of the rounding loop after \<open>k\<close> iterations.\<close>

fun lastOut_fp :: "(real \<Rightarrow> real) \<Rightarrow> (real \<Rightarrow> real) \<Rightarrow> (nat \<Rightarrow> real) \<Rightarrow> nat \<Rightarrow> real" where
  "lastOut_fp f32 dbl random 0 = 0"
| "lastOut_fp f32 dbl random (Suc k) =
     f32 (dbl (dbl (lastOut_fp f32 dbl random k
                      + dbl (dbl 0.02 * dbl (dbl (random k * 2) - 1))) / dbl 1.02))"

text \<open>
  A rounding function to instantiate the parameters with: round to the nearest multiple
  of \<open>2\<^sup>-\<^sup>k\<close> (ties upwards). On \<open>[-8, 8]\<close> the binary64 and binary32 formats are at least as
  fine as the grids with \<open>k = 50\<close> and \<open>k = 21\<close>.
\<close>

definition roundTo :: "nat \<Rightarrow> real \<Rightarrow> real" where
  "roundTo k x = of_int \<lfloor>x * 2 ^ k + 1 / 2\<rfloor> / 2 ^ k"

section \<open>The platform: Web Audio objects and animation frames\<close>

text \<open>
  Platform objects (the audio context, its destination, audio nodes and audio buffers) are
  identified by natural numbers handed out in order of creation. Their attributes live in
  one store per attribute, indexed by the object: \<open>gainValue s g\<close> is
  \<^verbatim>\<open>g.gain.value\<close>, \<open>frequencyValue s o\<close> is \<^verbatim>\<open>o.frequency.value\<close>, and so on. The audio
  graph is the set of connections \<open>(source, destination, output, input)\<close>. Every call of a
  platform method that creates, wires, starts, stops or releases something is appended to
  the log \<open>calls\<close>, in the order the component makes it.

  Platform calls are taken to succeed (the component catches no platform exception); the
  pixels drawn on the canvas are not part of the model.
\<close>

datatype call =
    NewAudioContext nat
  | NewAudioBuffer nat
  | CreateGain nat
  | CreateAnalyser nat
  | CreateBufferSource nat
  | CreateOscillator nat
  | CreateChannelMerger nat
  | Connect nat nat nat nat
  | Disconnect nat
  | Start nat
  | Stop nat
  | Close nat
  | RequestAnimationFrame nat
  | CancelAnimationFrame nat

text \<open>
  The state: first the component's own variables, under the names they have in the
  \<^verbatim>\<open><script>\<close> block (\<open>canvas\<close> records whether the canvas element is bound); then the
  platform. \<open>randoms\<close> is the sequence of values \<^verbatim>\<open>Math.random()\<close> returns over the
  lifetime of the page and \<open>drawn\<close> counts the calls made so far; \<open>context2d\<close> says whether
  \<^verbatim>\<open>canvas.getContext('2d')\<close> yields a context; \<open>frameRequests\<close> are the handles of the
  animation-frame callbacks that are scheduled and not yet run or cancelled.
\<close>

record state =
  audioContext :: "nat option"
  brownNoiseNode :: "nat option"
  gainNode :: "nat option"
  analyserNode :: "nat option"
  leftOscillator :: "nat option"
  rightOscillator :: "nat option"
  leftGain :: "nat option"
  rightGain :: "nat option"
  isBrownNoisePlaying :: bool
  isBinauralPlaying :: bool
  volume :: real
  baseFrequency :: real
  beatFrequency :: real
  canvas :: bool
  animationFrameId :: "nat option"
  nextId :: nat
  sampleRate :: nat
  destinationOf :: "nat \<Rightarrow> nat"
  closedContexts :: "nat set"
  gainValue :: "nat \<Rightarrow> real"
  frequencyValue :: "nat \<Rightarrow> real"
  fftSize :: "nat \<Rightarrow> nat"
  bufferOf :: "nat \<Rightarrow> nat option"
  loopOf :: "nat \<Rightarrow> bool"
  channelData :: "nat \<Rightarrow> real list"
  started :: "nat set"
  stopped :: "nat set"
  connections :: "(nat \<times> nat \<times> nat \<times> nat) set"
  randoms :: "nat \<Rightarrow> real"
  drawn :: nat
  context2d :: bool
  frameRequests :: "nat list"
  nextHandle :: nat
  calls :: "call list"

text \<open>
  The state when the component is mounted: the initial values of the \<^verbatim>\<open>let\<close>
  declarations, no platform object yet, and handles of animation frames starting at 1 (the
  platform never hands out 0).
\<close>

definition initial :: "nat \<Rightarrow> (nat \<Rightarrow> real) \<Rightarrow> bool \<Rightarrow> bool \<Rightarrow> state" where
  "initial rate rnd hasCanvas has2d =
     \<lparr> audioContext = None, brownNoiseNode = None, gainNode = None, analyserNode = None,
       leftOscillator = None, rightOscillator = None, leftGain = None, rightGain = None,
       isBrownNoisePlaying = False, isBinauralPlaying = False,
       volume = 0.5, baseFrequency = 200, beatFrequency = 0.5,
       canvas = hasCanvas, animationFrameId = None,
       nextId = 0, sampleRate = rate, destinationOf = (\<lambda>c. 0), closedContexts = {},
       gainValue = (\<lambda>n. 1), frequencyValue = (\<lambda>n. 440), fftSize = (\<lambda>n. 2048),
       bufferOf = (\<lambda>n. None), loopOf = (\<lambda>n. False), channelData = (\<lambda>b. []),
       started = {}, stopped = {}, connections = {},
       randoms = rnd, drawn = 0, context2d = has2d,
       frameRequests = [], nextHandle = 1, calls = [] \<rparr>"

subsection \<open>Platform calls\<close>

definition newAudioContext :: "state \<Rightarrow> nat \<times> state" where
  "newAudioContext s =
     (let c = nextId s; d = Suc c
      in (c, s\<lparr> nextId := Suc d, destinationOf := (destinationOf s)(c := d),
                calls := calls s @ [NewAudioContext c] \<rparr>))"

definition createGain :: "state \<Rightarrow> nat \<times> state" where
  "createGain s =
     (let g = nextId s
      in (g, s\<lparr> nextId := Suc g, gainValue := (gainValue s)(g := 1),
                calls := calls s @ [CreateGain g] \<rparr>))"

definition createAnalyser :: "state \<Rightarrow> nat \<times> state" where
  "createAnalyser s =
     (let a = nextId s
      in (a, s\<lparr> nextId := Suc a, fftSize := (fftSize s)(a := 2048),
                calls := calls s @ [CreateAnalyser a] \<rparr>))"

definition createBufferSource :: "state \<Rightarrow> nat \<times> state" where
  "createBufferSource s =
     (let n = nextId s
      in (n, s\<lparr> nextId := Suc n, bufferOf := (bufferOf s)(n := None),
                loopOf := (loopOf s)(n := False),
                calls := calls s @ [CreateBufferSource n] \<rparr>))"

definition createOscillator :: "state \<Rightarrow> nat \<times> state" where
  "createOscillator s =
     (let n = nextId s
      in (n, s\<lparr> nextId := Suc n, frequencyValue := (frequencyValue s)(n := 440),
                calls := calls s @ [CreateOscillator n] \<rparr>))"

definition createChannelMerger :: "state \<Rightarrow> nat \<times> state" where
  "createChannelMerger s =
     (let m = nextId s
      in (m, s\<lparr> nextId := Suc m, calls := calls s @ [CreateChannelMerger m] \<rparr>))"

definition connect :: "nat \<Rightarrow> nat \<Rightarrow> nat \<Rightarrow> nat \<Rightarrow> state \<Rightarrow> state" where
  "connect src dst output input s =
     s\<lparr> connections := insert (src, dst, output, input) (connections s),
        calls := calls s @ [Connect src dst output input] \<rparr>"

definition disconnect :: "nat \<Rightarrow> state \<Rightarrow> state" where
  "disconnect src s =
     s\<lparr> connections := {e \<in> connections s. fst e \<noteq> src},
        calls := calls s @ [Disconnect src] \<rparr>"

definition start :: "nat \<Rightarrow> state \<Rightarrow> state" where
  "start n s = s\<lparr> started := insert n (started s), calls := calls s @ [Start n] \<rparr>"

definition stop :: "nat \<Rightarrow> state \<Rightarrow> state" where
  "stop n s = s\<lparr> stopped := insert n (stopped s), calls := calls s @ [Stop n] \<rparr>"

definition close :: "nat \<Rightarrow> state \<Rightarrow> state" where
  "close c s = s\<lparr> closedContexts := insert c (closedContexts s), calls := calls s @ [Close c] \<rparr>"

definition requestAnimationFrame :: "state \<Rightarrow> nat \<times> state" where
  "requestAnimationFrame s =
     (let h = nextHandle s
      in (h, s\<lparr> frameRequests := frameRequests s @ [h], nextHandle := Suc h,
                calls := calls s @ [RequestAnimationFrame h] \<rparr>))"

definition cancelAnimationFrame :: "nat \<Rightarrow> state \<Rightarrow> state" where
  "cancelAnimationFrame h s =
     s\<lparr> frameRequests := removeAll h (frameRequests s),
        calls := calls s @ [CancelAnimationFrame h] \<rparr>"

text \<open>
  \<^verbatim>\<open>createBrownNoise(duration, sampleRate)\<close> as the component calls it: a new
  \<^verbatim>\<open>AudioBuffer\<close> whose channel is filled by the loop above from the next
  \<open>duration * sampleRate\<close> values of \<^verbatim>\<open>Math.random()\<close>.
\<close>

definition createBrownNoise_call :: "nat \<Rightarrow> nat \<Rightarrow> state \<Rightarrow> nat \<times> state" where
  "createBrownNoise_call duration rate s =
     (let b = nextId s
      in (b, s\<lparr> nextId := Suc b,
                channelData := (channelData s)
                  (b := createBrownNoise duration rate (\<lambda>i. randoms s (drawn s + i))),
                drawn := drawn s + duration * rate,
                calls := calls s @ [NewAudioBuffer b] \<rparr>))"

text \<open>JavaScript truthiness of \<^verbatim>\<open>animationFrameId\<close> (\<^verbatim>\<open>number | null\<close>).\<close>

definition truthy :: "nat option \<Rightarrow> bool" where
  "truthy x = (case x of None \<Rightarrow> False | Some n \<Rightarrow> n \<noteq> 0)"

text \<open>
  A guarded use of a nullable variable: \<^verbatim>\<open>if (x) { f(x) }\<close> and the optional call
  \<^verbatim>\<open>x?.f()\<close> do nothing when \<open>x\<close> is \<^verbatim>\<open>null\<close>.
\<close>

definition whenSome :: "nat option \<Rightarrow> (nat \<Rightarrow> state \<Rightarrow> state) \<Rightarrow> state \<Rightarrow> state" where
  "whenSome x f s = (case x of None \<Rightarrow> s | Some n \<Rightarrow> f n s)"

section \<open>The component's functions\<close>

text \<open>
  \<^verbatim>\<open>drawWaveform\<close>: returns early without an analyser, a canvas or a 2d context;
  otherwise draws and schedules itself for the next frame, keeping the handle.
\<close>

definition drawWaveform :: "state \<Rightarrow> state" where
  "drawWaveform s =
     (if analyserNode s = None \<or> \<not> canvas s then s
      else if \<not> context2d s then s
      else (let (h, s1) = requestAnimationFrame s
            in s1\<lparr> animationFrameId := Some h \<rparr>))"

definition setupAnalyser :: "state \<Rightarrow> state" where
  "setupAnalyser s =
     whenSome (audioContext s)
       (\<lambda>c s.
          (let (a, s1) = createAnalyser s;
               s2 = s1\<lparr> analyserNode := Some a \<rparr>;
               s3 = s2\<lparr> fftSize := (fftSize s2)(a := 2048) \<rparr>;
               s4 = whenSome (gainNode s3)
                      (\<lambda>g s. connect a (destinationOf s c) 0 0 (connect g a 0 0 s)) s3
           in if (isBrownNoisePlaying s4 \<or> isBinauralPlaying s4) \<and> \<not> truthy (animationFrameId s4)
              then drawWaveform s4 else s4)) s"

text \<open>
  The block \<^verbatim>\<open>if (!audioContext) { ... }\<close> that opens both \<^verbatim>\<open>setupBinauralBeats\<close>
  (lines 113-118) and \<^verbatim>\<open>toggleBrownNoise\<close> (lines 192-197), the same text in both:
  create the context and the shared gain node, set up the analyser, set the gain to the
  volume.
\<close>

definition ensureAudioContext :: "state \<Rightarrow> state" where
  "ensureAudioContext s =
     (if audioContext s = None then
        (let (c, s1) = newAudioContext s;
             s2 = s1\<lparr> audioContext := Some c \<rparr>;
             (g, s3) = createGain s2;
             s4 = s3\<lparr> gainNode := Some g \<rparr>;
             s5 = setupAnalyser s4
         in s5\<lparr> gainValue := (gainValue s5)(g := volume s5) \<rparr>)
      else s)"

definition setupBinauralBeats :: "state \<Rightarrow> state" where
  "setupBinauralBeats s0 =
     (let s1 = ensureAudioContext s0;
          (l, s2) = createOscillator s1;
          s3 = s2\<lparr> leftOscillator := Some l \<rparr>;
          (r, s4) = createOscillator s3;
          s5 = s4\<lparr> rightOscillator := Some r \<rparr>;
          (lg, s6) = createGain s5;
          s7 = s6\<lparr> leftGain := Some lg \<rparr>;
          (rg, s8) = createGain s7;
          s9 = s8\<lparr> rightGain := Some rg \<rparr>;
          s10 = s9\<lparr> frequencyValue := (frequencyValue s9)(l := baseFrequency s9) \<rparr>;
          s11 = s10\<lparr> frequencyValue :=
                      (frequencyValue s10)(r := baseFrequency s10 + beatFrequency s10) \<rparr>;
          (m, s12) = createChannelMerger s11;
          s13 = connect l lg 0 0 s12;
          s14 = connect lg m 0 0 s13;
          s15 = connect r rg 0 0 s14;
          s16 = connect rg m 0 1 s15;
          s17 = whenSome (gainNode s16) (\<lambda>g. connect m g 0 0) s16;
          s18 = s17\<lparr> gainValue := (gainValue s17)(lg := 0.1) \<rparr>;
          s19 = s18\<lparr> gainValue := (gainValue s18)(rg := 0.1) \<rparr>;
          s20 = start l s19
      in start r s20)"

definition updateBinauralBeats :: "state \<Rightarrow> state" where
  "updateBinauralBeats s =
     whenSome (leftOscillator s)
       (\<lambda>l. whenSome (rightOscillator s)
          (\<lambda>r s.
             (let s1 = s\<lparr> frequencyValue := (frequencyValue s)(l := baseFrequency s) \<rparr>
              in s1\<lparr> frequencyValue :=
                        (frequencyValue s1)(r := baseFrequency s1 + beatFrequency s1) \<rparr>))) s"

definition toggleBrownNoise :: "state \<Rightarrow> state" where
  "toggleBrownNoise s0 =
     (let s1 = ensureAudioContext s0
      in if \<not> isBrownNoisePlaying s1 then
           (let (n, s2) = createBufferSource s1;
                s3 = s2\<lparr> brownNoiseNode := Some n \<rparr>;
                (b, s4) = createBrownNoise_call 1 (sampleRate s3) s3;
                s5 = s4\<lparr> bufferOf := (bufferOf s4)(n := Some b) \<rparr>;
                s6 = s5\<lparr> loopOf := (loopOf s5)(n := True) \<rparr>;
                s7 = whenSome (gainNode s6)
                       (\<lambda>g s. connect n g 0 0
                                (s\<lparr> gainValue := (gainValue s)(g := volume s * 0.1) \<rparr>)) s6;
                s8 = start n s7
            in s8\<lparr> isBrownNoisePlaying := True \<rparr>)
         else
           (let s2 = whenSome (brownNoiseNode s1) stop s1;
                s3 = whenSome (brownNoiseNode s2) disconnect s2;
                s4 = s3\<lparr> brownNoiseNode := None \<rparr>
            in s4\<lparr> isBrownNoisePlaying := False \<rparr>))"

definition toggleBinauralBeats :: "state \<Rightarrow> state" where
  "toggleBinauralBeats s =
     (if \<not> isBinauralPlaying s then
        (setupBinauralBeats s)\<lparr> isBinauralPlaying := True \<rparr>
      else
        (let s1 = whenSome (leftOscillator s) stop s;
             s2 = whenSome (rightOscillator s1) stop s1;
             s3 = whenSome (leftOscillator s2) disconnect s2;
             s4 = whenSome (rightOscillator s3) disconnect s3;
             s5 = s4\<lparr> leftOscillator := None \<rparr>;
             s6 = s5\<lparr> rightOscillator := None \<rparr>
         in s6\<lparr> isBinauralPlaying := False \<rparr>))"

text \<open>
  \<^verbatim>\<open>setBrainwavePreset(frequency)\<close>: \<open>None\<close> is the \<^verbatim>\<open>null\<close> frequency of the
  "Brown Noise" preset.
\<close>

definition setBrainwavePreset :: "real option \<Rightarrow> state \<Rightarrow> state" where
  "setBrainwavePreset frequency s0 =
     (let s1 = (case frequency of
                  None \<Rightarrow>
                    (let sa = toggleBrownNoise s0
                     in if isBinauralPlaying sa then toggleBinauralBeats sa else sa)
                | Some f \<Rightarrow>
                    (let sa = s0\<lparr> beatFrequency := f \<rparr>;
                         sb = (if isBrownNoisePlaying sa then toggleBrownNoise sa else sa)
                     in if \<not> isBinauralPlaying sb then toggleBinauralBeats sb
                        else updateBinauralBeats sb))
      in if (isBrownNoisePlaying s1 \<or> isBinauralPlaying s1) \<and> \<not> truthy (animationFrameId s1)
         then drawWaveform s1
         else if \<not> isBrownNoisePlaying s1 \<and> \<not> isBinauralPlaying s1 \<and> truthy (animationFrameId s1)
         then (whenSome (animationFrameId s1) cancelAnimationFrame s1)\<lparr> animationFrameId := None \<rparr>
         else s1)"

definition updateVolume :: "state \<Rightarrow> state" where
  "updateVolume s =
     whenSome (gainNode s)
       (\<lambda>g s. if isBrownNoisePlaying s
              then s\<lparr> gainValue := (gainValue s)(g := volume s * 0.1) \<rparr>
              else s\<lparr> gainValue := (gainValue s)(g := volume s) \<rparr>) s"

text \<open>
  The slider's \<^verbatim>\<open>input\<close> event: \<^verbatim>\<open>bind:value={volume}\<close> stores the slider's value,
  then \<^verbatim>\<open>on:input={updateVolume}\<close> runs the handler.
\<close>

definition volumeInput :: "real \<Rightarrow> state \<Rightarrow> state" where
  "volumeInput v s = updateVolume (s\<lparr> volume := v \<rparr>)"

text \<open>
  The platform runs a scheduled animation-frame callback: the callback is
  \<^verbatim>\<open>drawWaveform\<close>, and its handle is no longer pending when it runs.
\<close>

definition animationFrame :: "state \<Rightarrow> state" where
  "animationFrame s =
     (case frameRequests s of
        [] \<Rightarrow> s
      | h # hs \<Rightarrow> drawWaveform (s\<lparr> frameRequests := hs \<rparr>))"

text \<open>The teardown handler registered with \<^verbatim>\<open>onDestroy\<close>.\<close>

definition onDestroy :: "state \<Rightarrow> state" where
  "onDestroy s0 =
     (let s1 = (if truthy (animationFrameId s0)
                then (whenSome (animationFrameId s0) cancelAnimationFrame s0)
                       \<lparr> animationFrameId := None \<rparr>
                else s0);
          s2 = whenSome (brownNoiseNode s1) (\<lambda>n s. disconnect n (stop n s)) s1;
          s3 = whenSome (leftOscillator s2) (\<lambda>l s. disconnect l (stop l s)) s2;
          s4 = whenSome (rightOscillator s3) (\<lambda>r s. disconnect r (stop r s)) s3
      in whenSome (audioContext s4) close s4)"

section \<open>Reachable states and their invariant\<close>

text \<open>
  The states the component can be in: the mounted state, followed by any sequence of
  preset clicks, slider inputs with a value in \<open>[0, 1]\<close>, animation frames, and direct
  calls of the two toggle functions (which no control of the markup makes, but which the
  script defines).
\<close>

inductive reachable :: "state \<Rightarrow> bool" where
  reachable_initial: "reachable (initial rate rnd hasCanvas has2d)"
| reachable_preset: "reachable s \<Longrightarrow> reachable (setBrainwavePreset frequency s)"
| reachable_volume: "reachable s \<Longrightarrow> 0 \<le> v \<Longrightarrow> v \<le> 1 \<Longrightarrow> reachable (volumeInput v s)"
| reachable_frame: "reachable s \<Longrightarrow> reachable (animationFrame s)"
| reachable_toggleBrownNoise: "reachable s \<Longrightarrow> reachable (toggleBrownNoise s)"
| reachable_toggleBinauralBeats: "reachable s \<Longrightarrow> reachable (toggleBinauralBeats s)"

text \<open>
  What holds in every reachable state: the shared gain node exists exactly when the
  context does; each playing flag is set exactly when its source nodes are referenced, and
  then the context exists; at most one animation-frame callback is pending, and its handle
  is the non-zero one held in \<^verbatim>\<open>animationFrameId\<close>; source nodes and every node ever
  started or stopped have identifiers already handed out; no variable refers to a stopped
  node; the source variables refer to different nodes.
\<close>

definition sourceRefs :: "state \<Rightarrow> nat set" where
  "sourceRefs s =
     set_option (brownNoiseNode s) \<union> set_option (leftOscillator s) \<union>
     set_option (rightOscillator s)"

definition consistent :: "state \<Rightarrow> bool" where
  "consistent s \<longleftrightarrow>
     (audioContext s = None \<longleftrightarrow> gainNode s = None) \<and>
     (isBrownNoisePlaying s \<longleftrightarrow> brownNoiseNode s \<noteq> None) \<and>
     (isBinauralPlaying s \<longleftrightarrow> leftOscillator s \<noteq> None) \<and>
     (isBinauralPlaying s \<longleftrightarrow> rightOscillator s \<noteq> None) \<and>
     (isBrownNoisePlaying s \<or> isBinauralPlaying s \<longrightarrow> audioContext s \<noteq> None) \<and>
     (frameRequests s = [] \<or>
        (\<exists>h. h \<noteq> 0 \<and> frameRequests s = [h] \<and> animationFrameId s = Some h)) \<and>
     nextHandle s \<noteq> 0 \<and>
     (\<forall>n \<in> started s. n < nextId s) \<and>
     (\<forall>n \<in> stopped s. n < nextId s) \<and>
     (\<forall>n \<in> sourceRefs s. n < nextId s \<and> n \<notin> stopped s) \<and>
     (\<forall>n. brownNoiseNode s = Some n \<longrightarrow>
          leftOscillator s \<noteq> Some n \<and> rightOscillator s \<noteq> Some n) \<and>
     (\<forall>n. leftOscillator s = Some n \<longrightarrow> rightOscillator s \<noteq> Some n)"

text \<open>
  \<open>precedes a b cs\<close>: in the log \<open>cs\<close>, the call \<open>b\<close> is made at some point after the
  call \<open>a\<close>.
\<close>

primrec precedes :: "call \<Rightarrow> call \<Rightarrow> call list \<Rightarrow> bool" where
  "precedes a b [] = False"
| "precedes a b (c # cs) = ((c = a \<and> b \<in> set cs) \<or> precedes a b cs)"

section \<open>Properties of the noise buffer\<close>

lemma createBrownNoise_loop_done:
  "\<not> i < n \<Longrightarrow> createBrownNoise_loop random n i lastOut data = data"
  by (subst createBrownNoise_loop.simps) simp

lemma createBrownNoise_loop_step:
  assumes "i < n" and "i < length data"
  shows "createBrownNoise_loop random n i lastOut data =
         createBrownNoise_loop random n (Suc i)
           ((lastOut + 0.02 * (random i * 2 - 1)) / 1.02)
           (data[i := (lastOut + 0.02 * (random i * 2 - 1)) / 1.02 * 3.5])"
  using assms
  by (subst createBrownNoise_loop.simps)
     (simp only: Let_def if_True nth_list_update_eq list_update_overwrite Suc_eq_plus1)

lemma createBrownNoise_loop_length:
  "length data = n \<Longrightarrow> length (createBrownNoise_loop random n i lastOut data) = n"
proof (induction "n - i" arbitrary: i lastOut data)
  case 0
  then show ?case
    by (simp add: createBrownNoise_loop_done)
next
  case (Suc k)
  then have "i < n" and "i < length data" and "k = n - Suc i"
    by simp_all
  then show ?case
    using Suc.hyps(1) [of "Suc i"] Suc.prems
    by (simp add: createBrownNoise_loop_step)
qed

lemma createBrownNoise_length:
  "length (createBrownNoise duration rate random) = duration * rate"
  by (simp add: createBrownNoise_def Let_def createBrownNoise_loop_length)

lemma leaky_step_bound:
  fixes lastOut r :: real
  assumes "\<bar>lastOut\<bar> \<le> 1" and "0 \<le> r" and "r \<le> 1"
  shows "\<bar>(lastOut + 0.02 * (r * 2 - 1)) / 1.02\<bar> \<le> 1"
proof -
  define a where "a = lastOut + 0.02 * (r * 2 - 1)"
  define c where "c = (1.02::real)"
  have bounds: "- 1 \<le> lastOut" "lastOut \<le> 1"
    using assms(1) by (simp_all add: abs_le_iff)
  have lo: "- c \<le> a"
    unfolding a_def c_def using bounds assms(2,3) by (simp add: field_simps)
  have hi: "a \<le> c"
    unfolding a_def c_def using bounds assms(2,3) by (simp add: field_simps)
  have cpos: "0 < c"
    unfolding c_def by simp
  have "\<bar>a\<bar> \<le> c"
    using lo hi by linarith
  then have "\<bar>a\<bar> / c \<le> 1"
    using cpos by (simp add: pos_divide_le_eq)
  moreover have "\<bar>a / c\<bar> = \<bar>a\<bar> / c"
    using cpos by (simp add: abs_divide)
  ultimately have "\<bar>a / c\<bar> \<le> 1"
    by (simp only:)
  then show ?thesis
    unfolding a_def c_def .
qed

lemma createBrownNoise_loop_range:
  assumes "length data = n"
    and "\<bar>lastOut\<bar> \<le> 1"
    and "\<forall>x \<in> set data. \<bar>x\<bar> \<le> 3.5"
    and "\<forall>j < n. 0 \<le> random j \<and> random j \<le> 1"
  shows "\<forall>x \<in> set (createBrownNoise_loop random n i lastOut data). \<bar>x\<bar> \<le> 3.5"
  using assms
proof (induction "n - i" arbitrary: i lastOut data)
  case 0
  then show ?case
    by (simp add: createBrownNoise_loop_done)
next
  case (Suc k)
  then have i: "i < n" "i < length data" and k: "k = n - Suc i"
    by simp_all
  define y where "y = (lastOut + 0.02 * (random i * 2 - 1)) / 1.02"
  have y: "\<bar>y\<bar> \<le> 1"
    unfolding y_def using Suc.prems(2,4) i(1) by (intro leaky_step_bound) auto
  have stored: "\<forall>x \<in> set (data[i := y * 3.5]). \<bar>x\<bar> \<le> 3.5"
  proof
    fix x assume "x \<in> set (data[i := y * 3.5])"
    then have "x \<in> insert (y * 3.5) (set data)"
      using set_update_subset_insert [of data i "y * 3.5"] by auto
    moreover have "\<bar>y * 3.5\<bar> \<le> 3.5"
      using y by (simp add: abs_mult)
    ultimately show "\<bar>x\<bar> \<le> 3.5"
      using Suc.prems(3) by auto
  qed
  have "\<forall>x \<in> set (createBrownNoise_loop random n (Suc i) y (data[i := y * 3.5])). \<bar>x\<bar> \<le> 3.5"
    using Suc.prems(1,4) y stored by (intro Suc.hyps(1) [OF k]) simp_all
  then show ?case
    unfolding createBrownNoise_loop_step [OF i] y_def .
qed

lemma createBrownNoise_loop_eq:
  assumes "length data = n" and "i \<le> n"
  shows "createBrownNoise_loop random n i (lastOut_after random i) data =
         take i data @ map (\<lambda>j. lastOut_after random (Suc j) * 3.5) [i..<n]"
  using assms
proof (induction "n - i" arbitrary: i data)
  case 0
  then show ?case
    by (simp add: createBrownNoise_loop_done)
next
  case (Suc k)
  then have i: "i < n" "i < length data" and k: "k = n - Suc i"
    by simp_all
  let ?v = "lastOut_after random (Suc i) * 3.5"
  have "createBrownNoise_loop random n i (lastOut_after random i) data =
        createBrownNoise_loop random n (Suc i) (lastOut_after random (Suc i)) (data[i := ?v])"
    by (simp only: createBrownNoise_loop_step [OF i] lastOut_after.simps)
  also have "\<dots> = take (Suc i) (data[i := ?v]) @
                   map (\<lambda>j. lastOut_after random (Suc j) * 3.5) [Suc i..<n]"
    using Suc.prems i by (intro Suc.hyps(1) [OF k]) simp_all
  also have "take (Suc i) (data[i := ?v]) = take i data @ [?v]"
    using i(2) by (simp add: take_Suc_conv_app_nth)
  also have "(take i data @ [?v]) @ map (\<lambda>j. lastOut_after random (Suc j) * 3.5) [Suc i..<n] =
             take i data @ map (\<lambda>j. lastOut_after random (Suc j) * 3.5) [i..<n]"
    using i(1) by (simp add: upt_conv_Cons)
  finally show ?case .
qed

lemma createBrownNoise_eq:
  "createBrownNoise duration rate random =
   map (\<lambda>j. lastOut_after random (Suc j) * 3.5) [0..<duration * rate]"
  using createBrownNoise_loop_eq [of "replicate (duration * rate) 0" "duration * rate" 0 random]
  by (simp add: createBrownNoise_def Let_def)

lemma createBrownNoise_nth:
  "i < duration * rate \<Longrightarrow>
   createBrownNoise duration rate random ! i = lastOut_after random (Suc i) * 3.5"
  by (simp add: createBrownNoise_eq)

lemma createBrownNoise_two_draws_of_zero:
  "createBrownNoise 1 2 (\<lambda>i. 0) ! 0 = - (7 / 102)"
  "createBrownNoise 1 2 (\<lambda>i. 0) ! 1 = - (707 / 5202)"
proof -
  have one: "lastOut_after (\<lambda>i. 0) (Suc 0) = - (1 / 51)"
    by simp
  have two: "lastOut_after (\<lambda>i. 0) (Suc (Suc 0)) = - (101 / 2601)"
    by (simp only: lastOut_after.simps(2) [of _ "Suc 0"] one) simp
  have n0: "createBrownNoise 1 2 (\<lambda>i. 0) ! 0 = lastOut_after (\<lambda>i. 0) (Suc 0) * 3.5"
    by (simp add: createBrownNoise_nth del: lastOut_after.simps)
  have n1: "createBrownNoise 1 2 (\<lambda>i. 0) ! 1 = lastOut_after (\<lambda>i. 0) (Suc (Suc 0)) * 3.5"
    using createBrownNoise_nth [of 1 1 2 "\<lambda>i. 0"] by (simp del: lastOut_after.simps)
  show "createBrownNoise 1 2 (\<lambda>i. 0) ! 0 = - (7 / 102)"
    unfolding n0 one by simp
  show "createBrownNoise 1 2 (\<lambda>i. 0) ! 1 = - (707 / 5202)"
    unfolding n1 two by simp
qed

text \<open>
  C5. For every duration and sample rate, every sample of the buffer that
  \<^verbatim>\<open>createBrownNoise\<close> returns lies in the range \<open>[-3.5, 3.5]\<close>, provided each
  white-noise draw \<open>Math.random() * 2 - 1\<close> lies in \<open>[-1, 1]\<close>.
\<close>

theorem createBrownNoise_range:
  assumes "\<forall>i. - 1 \<le> random i * 2 - 1 \<and> random i * 2 - 1 \<le> 1"
  shows "\<forall>x \<in> set (createBrownNoise duration rate random). - 3.5 \<le> x \<and> x \<le> 3.5"
proof -
  have draws: "\<forall>j < duration * rate. 0 \<le> random j \<and> random j \<le> 1"
  proof (intro allI impI)
    fix j
    from assms have "- 1 \<le> random j * 2 - 1 \<and> random j * 2 - 1 \<le> 1" ..
    then show "0 \<le> random j \<and> random j \<le> 1" by simp
  qed
  have "\<forall>x \<in> set (createBrownNoise_loop random (duration * rate) 0 0
          (replicate (duration * rate) 0)). \<bar>x\<bar> \<le> 3.5"
    by (rule createBrownNoise_loop_range) (use draws in simp_all)
  then have "\<forall>x \<in> set (createBrownNoise duration rate random). \<bar>x\<bar> \<le> 3.5"
    by (simp only: createBrownNoise_def Let_def)
  then show ?thesis
    by (auto simp only: abs_le_iff)
qed

theorem createBrownNoise_range_witness:
  "(\<forall>i. - 1 \<le> (\<lambda>i. 0::real) i * 2 - 1 \<and> (\<lambda>i. 0::real) i * 2 - 1 \<le> 1) \<and>
   - 3.5 \<le> createBrownNoise 1 2 (\<lambda>i. 0) ! 1 \<and> createBrownNoise 1 2 (\<lambda>i. 0) ! 1 \<le> 3.5"
proof -
  have draws: "\<forall>i. - 1 \<le> (\<lambda>i. 0::real) i * 2 - 1 \<and> (\<lambda>i. 0::real) i * 2 - 1 \<le> 1"
    by simp
  have "createBrownNoise 1 2 (\<lambda>i. 0) ! 1 \<in> set (createBrownNoise 1 2 (\<lambda>i. 0))"
    by (rule nth_mem) (simp add: createBrownNoise_length)
  with createBrownNoise_range [OF draws, of 1 2] draws show ?thesis
    by blast
qed

text \<open>
  C2 (as stated). The claim asks that each stored sample is obtained from the stored
  sample before it by \<open>data[i] = (data[i-1] + 0.02 * white) / 1.02\<close> for some \<open>white\<close> in
  \<open>[-1, 1]\<close>. The loop stores the sample scaled by 3.5, so this fails: when
  \<^verbatim>\<open>Math.random()\<close> returns 0 twice (both draws are \<open>white = -1\<close>), the only \<open>white\<close>
  that relates the two stored samples is \<open>-3.5\<close>.
\<close>

theorem createBrownNoise_stored_recurrence_counterexample:
  "\<not> (\<exists>white. - 1 \<le> white \<and> white \<le> 1 \<and>
        createBrownNoise 1 2 (\<lambda>i. 0) ! 1 =
          (createBrownNoise 1 2 (\<lambda>i. 0) ! 0 + 0.02 * white) / 1.02)"
proof
  assume "\<exists>white. - 1 \<le> white \<and> white \<le> 1 \<and>
        createBrownNoise 1 2 (\<lambda>i. 0) ! 1 =
          (createBrownNoise 1 2 (\<lambda>i. 0) ! 0 + 0.02 * white) / 1.02"
  then obtain white :: real where w: "- 1 \<le> white"
    and eq: "createBrownNoise 1 2 (\<lambda>i. 0) ! 1 =
          (createBrownNoise 1 2 (\<lambda>i. 0) ! 0 + 0.02 * white) / 1.02"
    by blast
  from eq have "- (707 / 5202) = (- (7 / 102) + 0.02 * white) / 1.02"
    by (simp only: createBrownNoise_two_draws_of_zero)
  then have "white = - 3.5"
    by (simp add: field_simps)
  with w show False
    by simp
qed

section \<open>The recurrence under rounding\<close>

lemma createBrownNoise_loop_fp_done:
  "\<not> i < n \<Longrightarrow> createBrownNoise_loop_fp f32 dbl random n i lastOut data = data"
  by (subst createBrownNoise_loop_fp.simps) simp

lemma createBrownNoise_loop_fp_step:
  assumes "i < n" and "i < length data"
  shows "createBrownNoise_loop_fp f32 dbl random n i lastOut data =
         createBrownNoise_loop_fp f32 dbl random n (Suc i)
           (f32 (dbl (dbl (lastOut + dbl (dbl 0.02 * dbl (dbl (random i * 2) - 1))) / dbl 1.02)))
           (data[i := f32 (dbl (f32 (dbl (dbl (lastOut
                + dbl (dbl 0.02 * dbl (dbl (random i * 2) - 1))) / dbl 1.02)) * 3.5))])"
  using assms
  by (subst createBrownNoise_loop_fp.simps)
     (simp only: Let_def if_True nth_list_update_eq list_update_overwrite Suc_eq_plus1)

lemma createBrownNoise_loop_fp_eq:
  assumes "length data = n" and "i \<le> n"
  shows "createBrownNoise_loop_fp f32 dbl random n i (lastOut_fp f32 dbl random i) data =
         take i data @ map (\<lambda>j. f32 (dbl (lastOut_fp f32 dbl random (Suc j) * 3.5))) [i..<n]"
  using assms
proof (induction "n - i" arbitrary: i data)
  case 0
  then show ?case
    by (simp add: createBrownNoise_loop_fp_done)
next
  case (Suc k)
  then have i: "i < n" "i < length data" and k: "k = n - Suc i"
    by simp_all
  let ?v = "f32 (dbl (lastOut_fp f32 dbl random (Suc i) * 3.5))"
  let ?f = "\<lambda>j. f32 (dbl (lastOut_fp f32 dbl random (Suc j) * 3.5))"
  have "createBrownNoise_loop_fp f32 dbl random n i (lastOut_fp f32 dbl random i) data =
        createBrownNoise_loop_fp f32 dbl random n (Suc i) (lastOut_fp f32 dbl random (Suc i))
          (data[i := ?v])"
    by (simp only: createBrownNoise_loop_fp_step [OF i] lastOut_fp.simps)
  also have "\<dots> = take (Suc i) (data[i := ?v]) @ map ?f [Suc i..<n]"
    using Suc.prems i by (intro Suc.hyps(1) [OF k]) simp_all
  also have "take (Suc i) (data[i := ?v]) = take i data @ [?v]"
    using i(2) by (simp add: take_Suc_conv_app_nth del: lastOut_fp.simps)
  also have "(take i data @ [?v]) @ map ?f [Suc i..<n] = take i data @ map ?f [i..<n]"
    using i(1) by (simp add: upt_conv_Cons del: lastOut_fp.simps)
  finally show ?case .
qed

lemma createBrownNoise_fp_nth:
  assumes "i < duration * rate"
  shows "createBrownNoise_fp f32 dbl duration rate random ! i =
         f32 (dbl (lastOut_fp f32 dbl random (Suc i) * 3.5))"
proof -
  have "createBrownNoise_fp f32 dbl duration rate random =
        map (\<lambda>j. f32 (dbl (lastOut_fp f32 dbl random (Suc j) * 3.5))) [0..<duration * rate]"
    using createBrownNoise_loop_fp_eq
      [of "replicate (duration * rate) 0" "duration * rate" 0 f32 dbl random]
    by (simp add: createBrownNoise_fp_def Let_def del: lastOut_fp.simps(2))
  with assms show ?thesis
    by (simp del: lastOut_fp.simps(2))
qed

text \<open>Without rounding, the rounding loop is the loop over the reals.\<close>

lemma createBrownNoise_loop_fp_exact:
  "createBrownNoise_loop_fp (\<lambda>x. x) (\<lambda>x. x) random n i lastOut data =
   createBrownNoise_loop random n i lastOut data"
proof (induction random n i lastOut data rule: createBrownNoise_loop.induct)
  case (1 random bufferSize i lastOut data)
  show ?case
  proof (cases "i < bufferSize")
    case False
    then show ?thesis
      by (simp add: createBrownNoise_loop_fp_done createBrownNoise_loop_done)
  next
    case True
    show ?thesis
      apply (subst createBrownNoise_loop_fp.simps)
      apply (subst createBrownNoise_loop.simps)
      apply (simp only: True if_True Let_def)
      apply (rule "1.IH" [OF True refl refl refl refl])
      done
  qed
qed

lemma createBrownNoise_fp_exact:
  "createBrownNoise_fp (\<lambda>x. x) (\<lambda>x. x) duration rate random =
   createBrownNoise duration rate random"
  by (simp only: createBrownNoise_fp_def createBrownNoise_def createBrownNoise_loop_fp_exact)

lemma roundTo_error:
  "\<bar>roundTo k x - x\<bar> \<le> 1 / 2 ^ Suc k"
proof -
  define y where "y = x * 2 ^ k + 1 / 2"
  have p: "(0::real) < 2 ^ k"
    by simp
  have "of_int \<lfloor>y\<rfloor> \<le> y" and "y < of_int \<lfloor>y\<rfloor> + 1"
    by linarith+
  then have half: "\<bar>of_int \<lfloor>y\<rfloor> - x * 2 ^ k\<bar> \<le> 1 / 2"
    unfolding y_def by linarith
  have "\<bar>of_int \<lfloor>y\<rfloor> - x * 2 ^ k\<bar> / 2 ^ k \<le> (1 / 2) / 2 ^ k"
    by (rule divide_right_mono [OF half]) simp
  moreover have "roundTo k x - x = (of_int \<lfloor>y\<rfloor> - x * 2 ^ k) / 2 ^ k"
    unfolding roundTo_def y_def by (simp add: field_simps)
  ultimately show ?thesis
    by (simp add: abs_divide)
qed

lemma abs_divide_le:
  fixes u d m :: real
  assumes "0 < m" and "m \<le> d"
  shows "\<bar>u / d\<bar> \<le> \<bar>u\<bar> / m"
proof -
  have d: "0 < d"
    using assms by linarith
  then have "\<bar>u / d\<bar> = \<bar>u\<bar> / d"
    by (simp add: abs_divide)
  also have "\<dots> \<le> \<bar>u\<bar> / m"
    by (rule divide_left_mono) (use assms d in simp_all)
  finally show ?thesis .
qed

lemma abs_mult_le:
  fixes a b :: real
  assumes "\<bar>a\<bar> \<le> A" and "\<bar>b\<bar> \<le> B"
  shows "\<bar>a * b\<bar> \<le> A * B"
proof -
  have "0 \<le> A"
    using assms(1) by linarith
  then have "\<bar>a\<bar> * \<bar>b\<bar> \<le> A * B"
    by (intro mult_mono assms) simp_all
  then show ?thesis
    by (simp add: abs_mult)
qed

lemma leaky_step_rounding:
  fixes f32 dbl :: "real \<Rightarrow> real" and \<eta> \<delta> x r :: real
  assumes f32: "\<And>y. \<bar>y\<bar> \<le> 8 \<Longrightarrow> \<bar>f32 y - y\<bar> \<le> \<eta>"
    and dbl: "\<And>y. \<bar>y\<bar> \<le> 8 \<Longrightarrow> \<bar>dbl y - y\<bar> \<le> \<delta>"
    and \<eta>: "\<eta> \<le> 1 / 1000" and \<delta>: "\<delta> \<le> 1 / 1000"
    and x: "\<bar>x\<bar> \<le> 2" and r: "0 \<le> r" "r \<le> 1"
  shows "\<bar>f32 (dbl (dbl (x + dbl (dbl 0.02 * dbl (dbl (r * 2) - 1))) / dbl 1.02))
           - (x + 0.02 * (r * 2 - 1)) / 1.02\<bar> \<le> \<eta> + 7 * \<delta>"
    and "\<bar>f32 (dbl (dbl (x + dbl (dbl 0.02 * dbl (dbl (r * 2) - 1))) / dbl 1.02))\<bar> \<le> 2"
proof -
  define w where "w = r * 2 - 1"
  define a where "a = dbl (r * 2)"
  define w' where "w' = dbl (a - 1)"
  define c where "c = dbl 0.02"
  define p where "p = dbl (c * w')"
  define s where "s = dbl (x + p)"
  define c' where "c' = dbl 1.02"
  define q where "q = dbl (s / c')"
  define t where "t = x + w / 50"
  define g where "g = t * (50 / 51)"
  have \<delta>0: "0 \<le> \<delta>"
    using dbl [of 0] by linarith
  have \<eta>0: "0 \<le> \<eta>"
    using f32 [of 0] by linarith
  have w: "\<bar>w\<bar> \<le> 1"
    unfolding w_def using r by linarith
  have "\<bar>r * 2\<bar> \<le> 8"
    using r by linarith
  then have a: "\<bar>a - r * 2\<bar> \<le> \<delta>"
    unfolding a_def by (rule dbl)
  have "\<bar>a - 1\<bar> \<le> 8"
    using a r \<delta> by linarith
  then have "\<bar>w' - (a - 1)\<bar> \<le> \<delta>"
    unfolding w'_def by (rule dbl)
  with a have w': "\<bar>w' - w\<bar> \<le> 2 * \<delta>"
    unfolding w_def by linarith
  have "\<bar>(0.02::real)\<bar> \<le> 8"
    by simp
  then have "\<bar>dbl 0.02 - 0.02\<bar> \<le> \<delta>"
    by (rule dbl)
  then have c: "\<bar>c - 1 / 50\<bar> \<le> \<delta>"
    unfolding c_def by simp
  have cb: "\<bar>c\<bar> \<le> 1 / 40"
    using c \<delta> by linarith
  have eq1: "c * w' - w / 50 = c * (w' - w) + (c - 1 / 50) * w"
    by (simp add: algebra_simps)
  have t1: "\<bar>c * (w' - w)\<bar> \<le> 1 / 40 * (2 * \<delta>)"
    by (rule abs_mult_le [OF cb w'])
  have t2: "\<bar>(c - 1 / 50) * w\<bar> \<le> \<delta> * 1"
    by (rule abs_mult_le [OF c w])
  have cw: "\<bar>c * w' - w / 50\<bar> \<le> 2 * \<delta>"
    using eq1 t1 t2 \<delta>0 by linarith
  have "\<bar>c * w'\<bar> \<le> 8"
    using cw w \<delta> by linarith
  then have "\<bar>p - c * w'\<bar> \<le> \<delta>"
    unfolding p_def by (rule dbl)
  with cw have p: "\<bar>p - w / 50\<bar> \<le> 3 * \<delta>"
    by linarith
  have "\<bar>x + p\<bar> \<le> 8"
    using p x w \<delta> by linarith
  then have "\<bar>s - (x + p)\<bar> \<le> \<delta>"
    unfolding s_def by (rule dbl)
  with p have s: "\<bar>s - t\<bar> \<le> 4 * \<delta>"
    unfolding t_def by linarith
  have tb: "\<bar>t\<bar> \<le> 101 / 50"
    unfolding t_def using x w by linarith
  have "\<bar>(1.02::real)\<bar> \<le> 8"
    by simp
  then have "\<bar>dbl 1.02 - 1.02\<bar> \<le> \<delta>"
    by (rule dbl)
  then have c'e: "\<bar>c' - 51 / 50\<bar> \<le> \<delta>"
    unfolding c'_def by simp
  have c'1: "1 \<le> c'"
    using c'e \<delta> by linarith
  define A where "A = (s - t) / c'"
  define B where "B = t * (51 / 50 - c') / (c' * (51 / 50))"
  have eq2: "s / c' - g = A + B"
    unfolding g_def A_def B_def using c'1 by (simp add: field_simps)
  have "\<bar>(s - t) / c'\<bar> \<le> \<bar>s - t\<bar> / 1"
    by (rule abs_divide_le) (use c'1 in simp_all)
  then have u1: "\<bar>A\<bar> \<le> \<bar>s - t\<bar>"
    unfolding A_def by simp
  have n2: "\<bar>t * (51 / 50 - c')\<bar> \<le> 101 / 50 * \<delta>"
    by (rule abs_mult_le [OF tb]) (use c'e in linarith)
  have "51 / 50 \<le> c' * (51 / 50)"
    using c'1 by simp
  then have "\<bar>t * (51 / 50 - c') / (c' * (51 / 50))\<bar> \<le> \<bar>t * (51 / 50 - c')\<bar> / (51 / 50)"
    by (intro abs_divide_le) simp_all
  also have "\<dots> \<le> (101 / 50 * \<delta>) / (51 / 50)"
    by (rule divide_right_mono [OF n2]) simp
  also have "\<dots> \<le> 2 * \<delta>"
    using \<delta>0 by simp
  finally have u2: "\<bar>B\<bar> \<le> 2 * \<delta>"
    unfolding B_def .
  have quot: "\<bar>s / c' - g\<bar> \<le> 6 * \<delta>"
    unfolding eq2 using u1 u2 s by linarith
  have gb: "\<bar>g\<bar> \<le> 101 / 51"
    unfolding g_def using tb by linarith
  have "\<bar>s / c'\<bar> \<le> 8"
    using quot gb \<delta> by linarith
  then have "\<bar>q - s / c'\<bar> \<le> \<delta>"
    unfolding q_def by (rule dbl)
  with quot have q: "\<bar>q - g\<bar> \<le> 7 * \<delta>"
    by linarith
  have "\<bar>q\<bar> \<le> 8"
    using q gb \<delta> by linarith
  then have "\<bar>f32 q - q\<bar> \<le> \<eta>"
    by (rule f32)
  with q have res: "\<bar>f32 q - g\<bar> \<le> \<eta> + 7 * \<delta>"
    by linarith
  have g: "(x + 0.02 * (r * 2 - 1)) / 1.02 = g"
    unfolding g_def t_def w_def by (simp add: field_simps)
  have fold: "f32 (dbl (dbl (x + dbl (dbl 0.02 * dbl (dbl (r * 2) - 1))) / dbl 1.02)) = f32 q"
    unfolding q_def s_def p_def c_def c'_def w'_def a_def ..
  show "\<bar>f32 (dbl (dbl (x + dbl (dbl 0.02 * dbl (dbl (r * 2) - 1))) / dbl 1.02))
           - (x + 0.02 * (r * 2 - 1)) / 1.02\<bar> \<le> \<eta> + 7 * \<delta>"
    unfolding fold g by (rule res)
  show "\<bar>f32 (dbl (dbl (x + dbl (dbl 0.02 * dbl (dbl (r * 2) - 1))) / dbl 1.02))\<bar> \<le> 2"
    unfolding fold using res gb \<eta> \<delta> by linarith
qed

lemma lastOut_fp_bound:
  fixes f32 dbl :: "real \<Rightarrow> real"
  assumes f32: "\<And>y. \<bar>y\<bar> \<le> 8 \<Longrightarrow> \<bar>f32 y - y\<bar> \<le> \<eta>"
    and dbl: "\<And>y. \<bar>y\<bar> \<le> 8 \<Longrightarrow> \<bar>dbl y - y\<bar> \<le> \<delta>"
    and \<eta>: "\<eta> \<le> 1 / 1000" and \<delta>: "\<delta> \<le> 1 / 1000"
    and draws: "\<And>i. 0 \<le> random i \<and> random i \<le> 1"
  shows "\<bar>lastOut_fp f32 dbl random k\<bar> \<le> 2"
proof (induction k)
  case 0
  show ?case
    by simp
next
  case (Suc k)
  have "0 \<le> random k" and "random k \<le> 1"
    using draws [of k] by simp_all
  from leaky_step_rounding(2) [of f32 \<eta> dbl \<delta>, OF f32 dbl \<eta> \<delta> Suc.IH this]
  show ?case
    by (simp only: lastOut_fp.simps)
qed

lemma lastOut_fp_step_error:
  fixes f32 dbl :: "real \<Rightarrow> real"
  assumes f32: "\<And>y. \<bar>y\<bar> \<le> 8 \<Longrightarrow> \<bar>f32 y - y\<bar> \<le> \<eta>"
    and dbl: "\<And>y. \<bar>y\<bar> \<le> 8 \<Longrightarrow> \<bar>dbl y - y\<bar> \<le> \<delta>"
    and \<eta>: "\<eta> \<le> 1 / 1000" and \<delta>: "\<delta> \<le> 1 / 1000"
    and draws: "\<And>i. 0 \<le> random i \<and> random i \<le> 1"
  shows "\<bar>lastOut_fp f32 dbl random (Suc k)
           - (lastOut_fp f32 dbl random k + 0.02 * (random k * 2 - 1)) / 1.02\<bar> \<le> \<eta> + 7 * \<delta>"
proof -
  have "0 \<le> random k" and "random k \<le> 1"
    using draws [of k] by simp_all
  from leaky_step_rounding(1) [of f32 \<eta> dbl \<delta>, OF f32 dbl \<eta> \<delta>
      lastOut_fp_bound [of f32 \<eta> dbl \<delta>, OF f32 dbl \<eta> \<delta> draws] this]
  show ?thesis
    by (simp only: lastOut_fp.simps)
qed

lemma stored_sample_error:
  fixes f32 dbl :: "real \<Rightarrow> real"
  assumes f32: "\<And>y. \<bar>y\<bar> \<le> 8 \<Longrightarrow> \<bar>f32 y - y\<bar> \<le> \<eta>"
    and dbl: "\<And>y. \<bar>y\<bar> \<le> 8 \<Longrightarrow> \<bar>dbl y - y\<bar> \<le> \<delta>"
    and \<delta>: "\<delta> \<le> 1 / 1000"
    and x: "\<bar>x\<bar> \<le> 2"
  shows "\<bar>f32 (dbl (x * 3.5)) / 3.5 - x\<bar> \<le> (\<eta> + \<delta>) * (2 / 7)"
proof -
  define y where "y = x * (7 / 2)"
  have yb: "\<bar>y\<bar> \<le> 8"
    unfolding y_def using x by linarith
  then have d: "\<bar>dbl y - y\<bar> \<le> \<delta>"
    by (rule dbl)
  then have "\<bar>dbl y\<bar> \<le> 8"
    using x \<delta> unfolding y_def by linarith
  then have "\<bar>f32 (dbl y) - dbl y\<bar> \<le> \<eta>"
    by (rule f32)
  with d have "\<bar>f32 (dbl y) - y\<bar> \<le> \<eta> + \<delta>"
    by linarith
  then have "\<bar>f32 (dbl y) * (2 / 7) - x\<bar> \<le> (\<eta> + \<delta>) * (2 / 7)"
    unfolding y_def by argo
  moreover have "x * 3.5 = y"
    unfolding y_def by simp
  moreover have "f32 (dbl y) / 3.5 = f32 (dbl y) * (2 / 7)"
    by simp
  ultimately show ?thesis
    by (simp only:)
qed

text \<open>
  C2 (amended). With the program's rounding, the recurrence holds for the samples before
  the scaling by 3.5 up to rounding error: for every index \<open>i\<close> of the buffer, with
  \<open>white\<close> the draw of iteration \<open>i\<close> and \<open>data[-1]\<close> read as 0, the two sides of
  \<open>data[i] / 3.5 = (data[i-1] / 3.5 + 0.02 * white) / 1.02\<close> differ by at most
  \<open>2 * \<eta> + 8 * \<delta>\<close>, where \<open>\<eta>\<close> bounds the error of a store into the \<^verbatim>\<open>Float32Array\<close>
  and \<open>\<delta>\<close> the error of one double operation, on arguments in \<open>[-8, 8]\<close>. (IEEE
  round-to-nearest gives \<open>\<eta> = 2\<^sup>-\<^sup>2\<^sup>2\<close> and \<open>\<delta> = 2\<^sup>-\<^sup>5\<^sup>1\<close>.)
\<close>

theorem createBrownNoise_fp_recurrence:
  fixes f32 dbl :: "real \<Rightarrow> real"
  assumes "\<forall>y. \<bar>y\<bar> \<le> 8 \<longrightarrow> \<bar>f32 y - y\<bar> \<le> \<eta>"
    and "\<forall>y. \<bar>y\<bar> \<le> 8 \<longrightarrow> \<bar>dbl y - y\<bar> \<le> \<delta>"
    and "\<eta> \<le> 1 / 1000" and "\<delta> \<le> 1 / 1000"
    and "\<forall>i. 0 \<le> random i \<and> random i \<le> 1"
    and "i < duration * rate"
  shows "\<bar>createBrownNoise_fp f32 dbl duration rate random ! i / 3.5
           - ((if i = 0 then 0
               else createBrownNoise_fp f32 dbl duration rate random ! (i - 1) / 3.5)
              + 0.02 * (random i * 2 - 1)) / 1.02\<bar>
         \<le> 2 * \<eta> + 8 * \<delta>"
proof -
  have f32: "\<bar>f32 y - y\<bar> \<le> \<eta>" if "\<bar>y\<bar> \<le> 8" for y
    using assms(1) that by blast
  have dbl: "\<bar>dbl y - y\<bar> \<le> \<delta>" if "\<bar>y\<bar> \<le> 8" for y
    using assms(2) that by blast
  have draws: "0 \<le> random j \<and> random j \<le> 1" for j
    using assms(5) by blast
  have \<delta>0: "0 \<le> \<delta>"
    using dbl [of 0] by linarith
  have \<eta>0: "0 \<le> \<eta>"
    using f32 [of 0] by linarith
  define X where "X = lastOut_fp f32 dbl random"
  define D where "D = createBrownNoise_fp f32 dbl duration rate random"
  define w where "w = 0.02 * (random i * 2 - 1)"
  have Xb: "\<bar>X k\<bar> \<le> 2" for k
    unfolding X_def by (rule lastOut_fp_bound [of f32 \<eta> dbl \<delta>, OF f32 dbl assms(3,4) draws])
  have step: "\<bar>X (Suc i) - (X i + w) / 1.02\<bar> \<le> \<eta> + 7 * \<delta>"
    unfolding X_def w_def
    by (rule lastOut_fp_step_error [of f32 \<eta> dbl \<delta>, OF f32 dbl assms(3,4) draws])
  have nth: "D ! j = f32 (dbl (X (Suc j) * 3.5))" if "j < duration * rate" for j
    unfolding D_def X_def using that by (rule createBrownNoise_fp_nth)
  have stored: "\<bar>D ! j / 3.5 - X (Suc j)\<bar> \<le> (\<eta> + \<delta>) * (2 / 7)" if "j < duration * rate" for j
    unfolding nth [OF that]
    by (rule stored_sample_error [of f32 \<eta> dbl \<delta>, OF f32 dbl assms(4) Xb])
  define prev where "prev = (if i = 0 then 0 else D ! (i - 1) / 3.5)"
  have prev: "\<bar>prev - X i\<bar> \<le> (\<eta> + \<delta>) * (2 / 7)"
  proof (cases i)
    case 0
    then show ?thesis
      unfolding prev_def X_def using \<eta>0 \<delta>0 by simp
  next
    case (Suc j)
    with assms(6) have "j < duration * rate"
      by simp
    from stored [OF this] Suc show ?thesis
      unfolding prev_def by simp
  qed
  define a where "a = D ! i / 3.5"
  define b where "b = X (Suc i)"
  define c where "c = X i"
  have 1: "\<bar>a - b\<bar> \<le> (\<eta> + \<delta>) * (2 / 7)"
    unfolding a_def b_def by (rule stored [OF assms(6)])
  have 2: "\<bar>b - (c + w) * (50 / 51)\<bar> \<le> \<eta> + 7 * \<delta>"
    using step unfolding b_def c_def by simp
  have 3: "\<bar>prev - c\<bar> \<le> (\<eta> + \<delta>) * (2 / 7)"
    using prev unfolding c_def .
  have "\<bar>a - (prev + w) * (50 / 51)\<bar> \<le> 2 * \<eta> + 8 * \<delta>"
    using 1 2 3 \<eta>0 \<delta>0 by argo
  then have "\<bar>a - (prev + w) / 1.02\<bar> \<le> 2 * \<eta> + 8 * \<delta>"
    by simp
  then show ?thesis
    unfolding a_def prev_def w_def D_def .
qed

theorem createBrownNoise_fp_recurrence_witness:
  "\<bar>createBrownNoise_fp (roundTo 21) (roundTo 50) 1 2 (\<lambda>i. 0) ! 1 / 3.5
     - ((if (1::nat) = 0 then 0
         else createBrownNoise_fp (roundTo 21) (roundTo 50) 1 2 (\<lambda>i. 0) ! (1 - 1) / 3.5)
        + 0.02 * ((\<lambda>i. 0::real) 1 * 2 - 1)) / 1.02\<bar>
   \<le> 2 * (1 / 2 ^ 22) + 8 * (1 / 2 ^ 51)"
proof -
  have h1: "\<forall>y::real. \<bar>y\<bar> \<le> 8 \<longrightarrow> \<bar>roundTo 21 y - y\<bar> \<le> 1 / 2 ^ 22"
    using roundTo_error [of 21] by simp
  have h2: "\<forall>y::real. \<bar>y\<bar> \<le> 8 \<longrightarrow> \<bar>roundTo 50 y - y\<bar> \<le> 1 / 2 ^ 51"
    using roundTo_error [of 50] by simp
  have h3: "(1::real) / 2 ^ 22 \<le> 1 / 1000"
    by simp
  have h4: "(1::real) / 2 ^ 51 \<le> 1 / 1000"
    by simp
  have h5: "\<forall>i. 0 \<le> (\<lambda>i. 0::real) i \<and> (\<lambda>i. 0::real) i \<le> 1"
    by simp
  have h6: "(1::nat) < 1 * 2"
    by simp
  show ?thesis
    by (rule createBrownNoise_fp_recurrence [OF h1 h2 h3 h4 h5 h6])
qed

section \<open>Effects of the operations\<close>

text \<open>
  Each function is unfolded once, for the situations that occur in consistent states, into
  the exact state it returns. The later proofs work from these equations.
\<close>

lemma whenSome_simps [simp]:
  "whenSome None f s = s"
  "whenSome (Some n) f s = f n s"
  by (simp_all add: whenSome_def)

lemmas platform_defs =
  newAudioContext_def createGain_def createAnalyser_def createBufferSource_def
  createOscillator_def createChannelMerger_def connect_def disconnect_def start_def stop_def
  close_def requestAnimationFrame_def cancelAnimationFrame_def createBrownNoise_call_def
  truthy_def

lemmas component_defs =
  drawWaveform_def setupAnalyser_def ensureAudioContext_def setupBinauralBeats_def
  updateBinauralBeats_def toggleBrownNoise_def toggleBinauralBeats_def setBrainwavePreset_def
  updateVolume_def volumeInput_def animationFrame_def onDestroy_def

lemmas run_cong = let_weak_cong prod.case_cong_weak option.case_cong_weak

lemma drawWaveform_skip:
  "analyserNode s = None \<or> \<not> canvas s \<or> \<not> context2d s \<Longrightarrow> drawWaveform s = s"
  by (auto simp add: drawWaveform_def)

lemma drawWaveform_draw:
  assumes "analyserNode s = Some a" and "canvas s" and "context2d s"
  shows "drawWaveform s =
     s\<lparr> frameRequests := frameRequests s @ [nextHandle s],
        nextHandle := Suc (nextHandle s),
        calls := calls s @ [RequestAnimationFrame (nextHandle s)],
        animationFrameId := Some (nextHandle s) \<rparr>"
  using assms
  by (simp add: drawWaveform_def requestAnimationFrame_def Let_def cong: run_cong)

lemma updateBinauralBeats_present:
  assumes "leftOscillator s = Some l" and "rightOscillator s = Some r"
  shows "updateBinauralBeats s =
     s\<lparr> frequencyValue := (frequencyValue s)
          (l := baseFrequency s, r := baseFrequency s + beatFrequency s) \<rparr>"
  using assms
  by (simp add: updateBinauralBeats_def Let_def cong: run_cong)

lemma ensureAudioContext_present:
  "audioContext s = Some c \<Longrightarrow> ensureAudioContext s = s"
  by (simp add: ensureAudioContext_def)

lemma ensureAudioContext_absent:
  assumes "audioContext s = None" and "\<not> isBrownNoisePlaying s" and "\<not> isBinauralPlaying s"
  shows "ensureAudioContext s =
     s\<lparr> destinationOf := (destinationOf s)(nextId s := Suc (nextId s)),
        audioContext := Some (nextId s),
        gainNode := Some (Suc (Suc (nextId s))),
        nextId := Suc (Suc (Suc (Suc (nextId s)))),
        analyserNode := Some (Suc (Suc (Suc (nextId s)))),
        fftSize := (fftSize s)(Suc (Suc (Suc (nextId s))) := 2048),
        connections :=
          insert (Suc (Suc (Suc (nextId s))), Suc (nextId s), 0, 0)
            (insert (Suc (Suc (nextId s)), Suc (Suc (Suc (nextId s))), 0, 0) (connections s)),
        calls := calls s @
          [NewAudioContext (nextId s), CreateGain (Suc (Suc (nextId s))),
           CreateAnalyser (Suc (Suc (Suc (nextId s)))),
           Connect (Suc (Suc (nextId s))) (Suc (Suc (Suc (nextId s)))) 0 0,
           Connect (Suc (Suc (Suc (nextId s)))) (Suc (nextId s)) 0 0],
        gainValue := (gainValue s)(Suc (Suc (nextId s)) := volume s) \<rparr>"
  using assms
  by (simp add: ensureAudioContext_def setupAnalyser_def platform_defs Let_def cong: run_cong)

lemma toggleBrownNoise_on:
  assumes "audioContext s = Some c" and "gainNode s = Some g" and "\<not> isBrownNoisePlaying s"
  shows "toggleBrownNoise s =
     s\<lparr> brownNoiseNode := Some (nextId s),
        nextId := Suc (Suc (nextId s)),
        channelData := (channelData s)
          (Suc (nextId s) := createBrownNoise 1 (sampleRate s) (\<lambda>i. randoms s (drawn s + i))),
        drawn := drawn s + sampleRate s,
        bufferOf := (bufferOf s)(nextId s \<mapsto> Suc (nextId s)),
        loopOf := (loopOf s)(nextId s := True),
        gainValue := (gainValue s)(g := volume s * 0.1),
        connections := insert (nextId s, g, 0, 0) (connections s),
        started := insert (nextId s) (started s),
        calls := calls s @
          [CreateBufferSource (nextId s), NewAudioBuffer (Suc (nextId s)),
           Connect (nextId s) g 0 0, Start (nextId s)],
        isBrownNoisePlaying := True \<rparr>"
  using assms
  by (simp add: toggleBrownNoise_def ensureAudioContext_def platform_defs Let_def cong: run_cong)

lemma toggleBrownNoise_off:
  assumes "audioContext s = Some c" and "brownNoiseNode s = Some n" and "isBrownNoisePlaying s"
  shows "toggleBrownNoise s =
     s\<lparr> stopped := insert n (stopped s),
        connections := {e \<in> connections s. fst e \<noteq> n},
        calls := calls s @ [Stop n, Disconnect n],
        brownNoiseNode := None,
        isBrownNoisePlaying := False \<rparr>"
  using assms
  by (simp add: toggleBrownNoise_def ensureAudioContext_def platform_defs Let_def cong: run_cong)

lemma setupBinauralBeats_present:
  assumes "audioContext s = Some c" and "gainNode s = Some g"
  shows "setupBinauralBeats s =
     s\<lparr> leftOscillator := Some (nextId s),
        rightOscillator := Some (Suc (nextId s)),
        leftGain := Some (Suc (Suc (nextId s))),
        rightGain := Some (Suc (Suc (Suc (nextId s)))),
        frequencyValue := (frequencyValue s)
          (nextId s := baseFrequency s, Suc (nextId s) := baseFrequency s + beatFrequency s),
        nextId := Suc (Suc (Suc (Suc (Suc (nextId s))))),
        connections :=
          insert (Suc (Suc (Suc (Suc (nextId s)))), g, 0, 0)
            (insert (Suc (Suc (Suc (nextId s))), Suc (Suc (Suc (Suc (nextId s)))), 0, 1)
              (insert (Suc (nextId s), Suc (Suc (Suc (nextId s))), 0, 0)
                (insert (Suc (Suc (nextId s)), Suc (Suc (Suc (Suc (nextId s)))), 0, 0)
                  (insert (nextId s, Suc (Suc (nextId s)), 0, 0) (connections s))))),
        gainValue := (gainValue s)
          (Suc (Suc (nextId s)) := 0.1, Suc (Suc (Suc (nextId s))) := 0.1),
        started := insert (Suc (nextId s)) (insert (nextId s) (started s)),
        calls := calls s @
          [CreateOscillator (nextId s), CreateOscillator (Suc (nextId s)),
           CreateGain (Suc (Suc (nextId s))), CreateGain (Suc (Suc (Suc (nextId s)))),
           CreateChannelMerger (Suc (Suc (Suc (Suc (nextId s))))),
           Connect (nextId s) (Suc (Suc (nextId s))) 0 0,
           Connect (Suc (Suc (nextId s))) (Suc (Suc (Suc (Suc (nextId s))))) 0 0,
           Connect (Suc (nextId s)) (Suc (Suc (Suc (nextId s)))) 0 0,
           Connect (Suc (Suc (Suc (nextId s)))) (Suc (Suc (Suc (Suc (nextId s))))) 0 1,
           Connect (Suc (Suc (Suc (Suc (nextId s))))) g 0 0,
           Start (nextId s), Start (Suc (nextId s))] \<rparr>"
  using assms
  by (simp add: setupBinauralBeats_def ensureAudioContext_def platform_defs Let_def cong: run_cong)

lemma toggleBinauralBeats_off:
  assumes "leftOscillator s = Some l" and "rightOscillator s = Some r" and "isBinauralPlaying s"
  shows "toggleBinauralBeats s =
     s\<lparr> stopped := insert r (insert l (stopped s)),
        connections := {e \<in> connections s. fst e \<noteq> l \<and> fst e \<noteq> r},
        calls := calls s @ [Stop l, Stop r, Disconnect l, Disconnect r],
        leftOscillator := None,
        rightOscillator := None,
        isBinauralPlaying := False \<rparr>"
  using assms
  by (simp add: toggleBinauralBeats_def platform_defs Let_def cong: run_cong)

lemma toggleBrownNoise_absent:
  assumes "audioContext s = None" and "\<not> isBrownNoisePlaying s" and "\<not> isBinauralPlaying s"
  shows "toggleBrownNoise s = toggleBrownNoise (ensureAudioContext s)"
proof -
  have "audioContext (ensureAudioContext s) = Some (nextId s)"
    by (simp add: ensureAudioContext_absent [OF assms])
  then have "ensureAudioContext (ensureAudioContext s) = ensureAudioContext s"
    by (rule ensureAudioContext_present)
  then show ?thesis
    by (simp only: toggleBrownNoise_def)
qed

lemma setupBinauralBeats_absent:
  assumes "audioContext s = None" and "\<not> isBrownNoisePlaying s" and "\<not> isBinauralPlaying s"
  shows "setupBinauralBeats s = setupBinauralBeats (ensureAudioContext s)"
proof -
  have "audioContext (ensureAudioContext s) = Some (nextId s)"
    by (simp add: ensureAudioContext_absent [OF assms])
  then have "ensureAudioContext (ensureAudioContext s) = ensureAudioContext s"
    by (rule ensureAudioContext_present)
  then show ?thesis
    by (simp only: setupBinauralBeats_def)
qed

lemma toggleBinauralBeats_on:
  "\<not> isBinauralPlaying s \<Longrightarrow>
   toggleBinauralBeats s = (setupBinauralBeats s)\<lparr> isBinauralPlaying := True \<rparr>"
  by (simp add: toggleBinauralBeats_def)

section \<open>The invariant holds in every reachable state\<close>

lemma consistent_ensureAudioContext:
  assumes "consistent s"
  shows "consistent (ensureAudioContext s)"
proof (cases "audioContext s")
  case (Some c)
  with assms show ?thesis
    by (simp add: ensureAudioContext_present)
next
  case None
  with assms have flags: "\<not> isBrownNoisePlaying s" "\<not> isBinauralPlaying s"
    by (auto simp add: consistent_def)
  show ?thesis
    unfolding ensureAudioContext_absent [OF None flags]
    using assms None by (auto simp add: consistent_def sourceRefs_def intro: less_SucI)
qed

lemma audioContext_ensureAudioContext:
  assumes "consistent s"
  shows "audioContext (ensureAudioContext s) \<noteq> None"
proof (cases "audioContext s")
  case (Some c)
  then show ?thesis
    by (simp add: ensureAudioContext_present)
next
  case None
  with assms have flags: "\<not> isBrownNoisePlaying s" "\<not> isBinauralPlaying s"
    by (auto simp add: consistent_def)
  show ?thesis
    by (simp add: ensureAudioContext_absent [OF None flags])
qed

lemma toggleBrownNoise_ensure:
  assumes "consistent s"
  shows "toggleBrownNoise s = toggleBrownNoise (ensureAudioContext s)"
proof (cases "audioContext s")
  case (Some c)
  then show ?thesis
    by (simp add: ensureAudioContext_present)
next
  case None
  with assms have flags: "\<not> isBrownNoisePlaying s" "\<not> isBinauralPlaying s"
    by (auto simp add: consistent_def)
  show ?thesis
    by (rule toggleBrownNoise_absent [OF None flags])
qed

lemma setupBinauralBeats_ensure:
  assumes "consistent s"
  shows "setupBinauralBeats s = setupBinauralBeats (ensureAudioContext s)"
proof (cases "audioContext s")
  case (Some c)
  then show ?thesis
    by (simp add: ensureAudioContext_present)
next
  case None
  with assms have flags: "\<not> isBrownNoisePlaying s" "\<not> isBinauralPlaying s"
    by (auto simp add: consistent_def)
  show ?thesis
    by (rule setupBinauralBeats_absent [OF None flags])
qed

lemma consistent_toggleBrownNoise_present:
  assumes t: "consistent t" and c: "audioContext t = Some c"
  shows "consistent (toggleBrownNoise t)"
proof -
  from t c obtain g where g: "gainNode t = Some g"
    by (auto simp add: consistent_def)
  show ?thesis
  proof (cases "isBrownNoisePlaying t")
    case False
    show ?thesis
      unfolding toggleBrownNoise_on [OF c g False]
      using t c g False by (auto simp add: consistent_def sourceRefs_def intro: less_SucI)
  next
    case True
    with t obtain n where n: "brownNoiseNode t = Some n"
      by (auto simp add: consistent_def)
    show ?thesis
      unfolding toggleBrownNoise_off [OF c n True]
      using t c n by (auto simp add: consistent_def sourceRefs_def intro: less_SucI)
  qed
qed

lemma consistent_toggleBrownNoise:
  assumes "consistent s"
  shows "consistent (toggleBrownNoise s)"
proof -
  from audioContext_ensureAudioContext [OF assms]
  obtain c where "audioContext (ensureAudioContext s) = Some c"
    by blast
  with consistent_ensureAudioContext [OF assms]
  have "consistent (toggleBrownNoise (ensureAudioContext s))"
    by (rule consistent_toggleBrownNoise_present)
  then show ?thesis
    by (simp only: toggleBrownNoise_ensure [OF assms, symmetric])
qed

lemma consistent_setupBinauralBeats_present:
  assumes t: "consistent t" and c: "audioContext t = Some c" and off: "\<not> isBinauralPlaying t"
  shows "consistent ((setupBinauralBeats t)\<lparr> isBinauralPlaying := True \<rparr>)"
proof -
  from t c obtain g where g: "gainNode t = Some g"
    by (auto simp add: consistent_def)
  show ?thesis
    unfolding setupBinauralBeats_present [OF c g]
    using t c g off by (auto simp add: consistent_def sourceRefs_def intro: less_SucI)
qed

lemma consistent_toggleBinauralBeats:
  assumes "consistent s"
  shows "consistent (toggleBinauralBeats s)"
proof (cases "isBinauralPlaying s")
  case True
  with assms obtain l r where lr: "leftOscillator s = Some l" "rightOscillator s = Some r"
    by (auto simp add: consistent_def)
  show ?thesis
    unfolding toggleBinauralBeats_off [OF lr True]
    using assms lr by (auto simp add: consistent_def sourceRefs_def intro: less_SucI)
next
  case False
  from audioContext_ensureAudioContext [OF assms]
  obtain c where c: "audioContext (ensureAudioContext s) = Some c"
    by blast
  have "isBinauralPlaying (ensureAudioContext s) = isBinauralPlaying s"
  proof (cases "audioContext s")
    case (Some c)
    then show ?thesis
      by (simp add: ensureAudioContext_present)
  next
    case None
    with assms have flags: "\<not> isBrownNoisePlaying s" "\<not> isBinauralPlaying s"
      by (auto simp add: consistent_def)
    show ?thesis
      by (simp add: ensureAudioContext_absent [OF None flags])
  qed
  with False have "\<not> isBinauralPlaying (ensureAudioContext s)"
    by simp
  with consistent_ensureAudioContext [OF assms] c
  have "consistent ((setupBinauralBeats (ensureAudioContext s))\<lparr> isBinauralPlaying := True \<rparr>)"
    by (rule consistent_setupBinauralBeats_present)
  then show ?thesis
    by (simp only: toggleBinauralBeats_on [OF False] setupBinauralBeats_ensure [OF assms, symmetric])
qed

lemma consistent_drawWaveform:
  assumes "consistent s" and "frameRequests s = []"
  shows "consistent (drawWaveform s)"
proof (cases "analyserNode s = None \<or> \<not> canvas s \<or> \<not> context2d s")
  case True
  with assms(1) show ?thesis
    by (simp only: drawWaveform_skip)
next
  case False
  then obtain a where a: "analyserNode s = Some a" and c: "canvas s" and d: "context2d s"
    by auto
  show ?thesis
    unfolding drawWaveform_draw [OF a c d]
    using assms by (auto simp add: consistent_def sourceRefs_def)
qed

lemma not_truthy_no_requests:
  assumes "consistent s" and "\<not> truthy (animationFrameId s)"
  shows "frameRequests s = []"
  using assms by (auto simp add: consistent_def truthy_def)

lemma consistent_cancel:
  assumes "consistent s" and "truthy (animationFrameId s)"
  shows "consistent ((whenSome (animationFrameId s) cancelAnimationFrame s)\<lparr> animationFrameId := None \<rparr>)"
proof -
  from assms(2) obtain h where h: "animationFrameId s = Some h"
    by (cases "animationFrameId s") (simp_all add: truthy_def)
  show ?thesis
    using assms(1) h
    by (auto simp add: h cancelAnimationFrame_def consistent_def sourceRefs_def)
qed

lemma consistent_unrelated_updates:
  "consistent (s\<lparr> beatFrequency := f \<rparr>) = consistent s"
  "consistent (s\<lparr> volume := v \<rparr>) = consistent s"
  "consistent (s\<lparr> gainValue := gv \<rparr>) = consistent s"
  "consistent (s\<lparr> frequencyValue := fv \<rparr>) = consistent s"
  by (simp_all add: consistent_def sourceRefs_def)

lemma consistent_updateBinauralBeats:
  assumes "consistent s"
  shows "consistent (updateBinauralBeats s)"
proof (cases "leftOscillator s")
  case None
  with assms show ?thesis
    by (simp add: updateBinauralBeats_def)
next
  case l: (Some l)
  show ?thesis
  proof (cases "rightOscillator s")
    case None
    with assms l show ?thesis
      by (simp add: updateBinauralBeats_def)
  next
    case (Some r)
    show ?thesis
      unfolding updateBinauralBeats_present [OF l Some]
      using assms by (simp only: consistent_unrelated_updates)
  qed
qed

lemma consistent_beatFrequency:
  "consistent s \<Longrightarrow> consistent (s\<lparr> beatFrequency := f \<rparr>)"
  by (simp only: consistent_unrelated_updates)

lemma consistent_volumeInput:
  assumes "consistent s"
  shows "consistent (volumeInput v s)"
proof (cases "gainNode s")
  case None
  with assms show ?thesis
    by (simp add: volumeInput_def updateVolume_def consistent_unrelated_updates)
next
  case (Some g)
  with assms show ?thesis
    by (simp add: volumeInput_def updateVolume_def consistent_unrelated_updates)
qed

lemma consistent_animationFrame:
  assumes "consistent s"
  shows "consistent (animationFrame s)"
proof (cases "frameRequests s")
  case Nil
  with assms show ?thesis
    by (simp add: animationFrame_def)
next
  case (Cons h hs)
  with assms have hs: "hs = []"
    by (auto simp add: consistent_def)
  have "consistent (s\<lparr> frameRequests := [] \<rparr>)"
    using assms by (auto simp add: consistent_def sourceRefs_def)
  then have "consistent (drawWaveform (s\<lparr> frameRequests := [] \<rparr>))"
    by (rule consistent_drawWaveform) simp
  with Cons hs show ?thesis
    by (simp add: animationFrame_def)
qed

lemma consistent_redraw_policy:
  assumes "consistent t"
  shows "consistent
     (if (isBrownNoisePlaying t \<or> isBinauralPlaying t) \<and> \<not> truthy (animationFrameId t)
      then drawWaveform t
      else if \<not> isBrownNoisePlaying t \<and> \<not> isBinauralPlaying t \<and> truthy (animationFrameId t)
      then (whenSome (animationFrameId t) cancelAnimationFrame t)\<lparr> animationFrameId := None \<rparr>
      else t)"
  using assms consistent_cancel [of t]
    consistent_drawWaveform [OF assms not_truthy_no_requests [OF assms]]
  by (simp only: split: if_split) blast

lemma consistent_setBrainwavePreset:
  assumes "consistent s"
  shows "consistent (setBrainwavePreset frequency s)"
proof -
  define t where "t =
    (case frequency of
       None \<Rightarrow>
         (let sa = toggleBrownNoise s
          in if isBinauralPlaying sa then toggleBinauralBeats sa else sa)
     | Some f \<Rightarrow>
         (let sa = s\<lparr> beatFrequency := f \<rparr>;
              sb = (if isBrownNoisePlaying sa then toggleBrownNoise sa else sa)
          in if \<not> isBinauralPlaying sb then toggleBinauralBeats sb
             else updateBinauralBeats sb))"
  have "consistent t"
  proof (cases frequency)
    case None
    then show ?thesis
      unfolding t_def Let_def
      using consistent_toggleBrownNoise [OF assms]
      by (simp add: consistent_toggleBinauralBeats)
  next
    case (Some f)
    have sb: "consistent (if isBrownNoisePlaying (s\<lparr> beatFrequency := f \<rparr>)
                          then toggleBrownNoise (s\<lparr> beatFrequency := f \<rparr>)
                          else s\<lparr> beatFrequency := f \<rparr>)"
      using consistent_beatFrequency [OF assms, of f]
      by (simp add: consistent_toggleBrownNoise)
    show ?thesis
      unfolding t_def Let_def Some option.case
      using sb by (simp only: consistent_toggleBinauralBeats consistent_updateBinauralBeats split: if_split) simp
  qed
  then have "consistent
     (if (isBrownNoisePlaying t \<or> isBinauralPlaying t) \<and> \<not> truthy (animationFrameId t)
      then drawWaveform t
      else if \<not> isBrownNoisePlaying t \<and> \<not> isBinauralPlaying t \<and> truthy (animationFrameId t)
      then (whenSome (animationFrameId t) cancelAnimationFrame t)\<lparr> animationFrameId := None \<rparr>
      else t)"
    by (rule consistent_redraw_policy)
  then show ?thesis
    unfolding setBrainwavePreset_def t_def Let_def .
qed

lemma consistent_initial:
  "consistent (initial rate rnd hasCanvas has2d)"
  by (simp add: consistent_def sourceRefs_def initial_def)

lemma reachable_consistent:
  "reachable s \<Longrightarrow> consistent s"
proof (induction rule: reachable.induct)
  case (reachable_initial rate rnd hasCanvas has2d)
  show ?case
    by (rule consistent_initial)
next
  case (reachable_preset s frequency)
  then show ?case
    by (simp only: consistent_setBrainwavePreset)
next
  case (reachable_volume s v)
  then show ?case
    by (simp only: consistent_volumeInput)
next
  case (reachable_frame s)
  then show ?case
    by (simp only: consistent_animationFrame)
next
  case (reachable_toggleBrownNoise s)
  then show ?case
    by (simp only: consistent_toggleBrownNoise)
next
  case (reachable_toggleBinauralBeats s)
  then show ?case
    by (simp only: consistent_toggleBinauralBeats)
qed

section \<open>Volume and the shared gain stage\<close>

lemma noise_started_from_initial:
  "let s = toggleBrownNoise (initial 2 (\<lambda>i. 0) True True)
   in gainNode s = Some 2 \<and> isBrownNoisePlaying s \<and> \<not> isBinauralPlaying s"
  by (simp add: initial_def component_defs platform_defs Let_def cong: run_cong)

lemma tones_started_from_initial:
  "let s = toggleBinauralBeats (initial 2 (\<lambda>i. 0) True True)
   in gainNode s = Some 2 \<and> \<not> isBrownNoisePlaying s \<and> isBinauralPlaying s"
  by (simp add: initial_def component_defs platform_defs Let_def cong: run_cong)

text \<open>
  C4. With the shared gain node created, the volume-change handler, run after the slider
  has stored the volume \<open>v\<close>, sets the mix gain to \<open>v * 0.1\<close> while noise is playing
  and to \<open>v\<close> while tones are playing and noise is not. (The bounds on \<open>v\<close> are those of
  the slider; the equations do not depend on them.)
\<close>

theorem updateVolume_sets_gain:
  assumes "gainNode s = Some g" and "0 \<le> v" and "v \<le> 1"
  shows "(isBrownNoisePlaying s \<longrightarrow>
            gainValue (updateVolume (s\<lparr> volume := v \<rparr>)) g = v * 0.1) \<and>
         (isBinauralPlaying s \<and> \<not> isBrownNoisePlaying s \<longrightarrow>
            gainValue (updateVolume (s\<lparr> volume := v \<rparr>)) g = v)"
  using assms(1) by (simp add: updateVolume_def)

theorem updateVolume_sets_gain_witness:
  "gainNode (toggleBrownNoise (initial 2 (\<lambda>i. 0) True True)) = Some 2 \<and>
   (0::real) \<le> 1 / 4 \<and> (1 / 4 :: real) \<le> 1 \<and>
   isBrownNoisePlaying (toggleBrownNoise (initial 2 (\<lambda>i. 0) True True)) \<and>
   gainValue (updateVolume (toggleBrownNoise (initial 2 (\<lambda>i. 0) True True)
                \<lparr> volume := 1 / 4 \<rparr>)) 2 = 1 / 4 * 0.1 \<and>
   gainNode (toggleBinauralBeats (initial 2 (\<lambda>i. 0) True True)) = Some 2 \<and>
   isBinauralPlaying (toggleBinauralBeats (initial 2 (\<lambda>i. 0) True True)) \<and>
   \<not> isBrownNoisePlaying (toggleBinauralBeats (initial 2 (\<lambda>i. 0) True True)) \<and>
   gainValue (updateVolume (toggleBinauralBeats (initial 2 (\<lambda>i. 0) True True)
                \<lparr> volume := 1 / 4 \<rparr>)) 2 = 1 / 4"
proof -
  have v: "(0::real) \<le> 1 / 4" "(1 / 4 :: real) \<le> 1"
    by simp_all
  note n = noise_started_from_initial [unfolded Let_def]
  note t = tones_started_from_initial [unfolded Let_def]
  from n have gn: "gainNode (toggleBrownNoise (initial 2 (\<lambda>i. 0) True True)) = Some 2" ..
  from t have gt: "gainNode (toggleBinauralBeats (initial 2 (\<lambda>i. 0) True True)) = Some 2" ..
  show ?thesis
    using updateVolume_sets_gain [OF gn v] updateVolume_sets_gain [OF gt v] n t v
    by blast
qed

text \<open>
  C10. Before any source has been activated (no context, hence no shared gain node) the
  volume-change handler returns the state it was given: it touches no node and the stored
  volume stays. The next activation creates the gain node and derives its gain from the
  stored volume: \<open>v\<close> when tones are started, and \<open>v * 0.1\<close> when noise is started (the
  block that creates the node sets \<open>v\<close>, the noise branch then sets \<open>v * 0.1\<close>).
\<close>

theorem updateVolume_before_activation:
  assumes "consistent s" and "gainNode s = None"
  shows "updateVolume (s\<lparr> volume := v \<rparr>) = s\<lparr> volume := v \<rparr> \<and>
         (\<exists>g. gainNode (toggleBrownNoise (updateVolume (s\<lparr> volume := v \<rparr>))) = Some g \<and>
              gainValue (toggleBrownNoise (updateVolume (s\<lparr> volume := v \<rparr>))) g = v * 0.1) \<and>
         (\<exists>g. gainNode (toggleBinauralBeats (updateVolume (s\<lparr> volume := v \<rparr>))) = Some g \<and>
              gainValue (toggleBinauralBeats (updateVolume (s\<lparr> volume := v \<rparr>))) g = v \<and>
              gainValue (ensureAudioContext (updateVolume (s\<lparr> volume := v \<rparr>))) g = v)"
proof -
  from assms have none: "audioContext s = None"
    and flags: "\<not> isBrownNoisePlaying s" "\<not> isBinauralPlaying s"
    by (auto simp add: consistent_def)
  have id: "updateVolume (s\<lparr> volume := v \<rparr>) = s\<lparr> volume := v \<rparr>"
    using assms(2) by (simp add: updateVolume_def)
  have noise: "let t = toggleBrownNoise (s\<lparr> volume := v \<rparr>)
               in gainNode t = Some (nextId s + 2) \<and> gainValue t (nextId s + 2) = v * 0.1"
    using none flags assms(2)
    by (simp add: component_defs platform_defs Let_def cong: run_cong)
  have tones: "let t = toggleBinauralBeats (s\<lparr> volume := v \<rparr>)
               in gainNode t = Some (nextId s + 2) \<and> gainValue t (nextId s + 2) = v"
    using none flags assms(2)
    by (simp add: component_defs platform_defs Let_def cong: run_cong)
  have ensure: "gainValue (ensureAudioContext (s\<lparr> volume := v \<rparr>)) (nextId s + 2) = v"
    using none flags assms(2)
    by (simp add: component_defs platform_defs Let_def cong: run_cong)
  show ?thesis
    using noise tones ensure unfolding id Let_def by blast
qed

theorem updateVolume_before_activation_witness:
  "consistent (initial 2 (\<lambda>i. 0) True True) \<and>
   gainNode (initial 2 (\<lambda>i. 0) True True) = None \<and>
   updateVolume (initial 2 (\<lambda>i. 0) True True \<lparr> volume := 1 / 4 \<rparr>) =
     initial 2 (\<lambda>i. 0) True True \<lparr> volume := 1 / 4 \<rparr> \<and>
   (\<exists>g. gainNode (toggleBrownNoise
              (updateVolume (initial 2 (\<lambda>i. 0) True True \<lparr> volume := 1 / 4 \<rparr>))) = Some g \<and>
        gainValue (toggleBrownNoise
              (updateVolume (initial 2 (\<lambda>i. 0) True True \<lparr> volume := 1 / 4 \<rparr>))) g
          = 1 / 4 * 0.1)"
proof -
  have c: "consistent (initial 2 (\<lambda>i. 0) True True)"
    by (rule consistent_initial)
  have g: "gainNode (initial 2 (\<lambda>i. 0) True True) = None"
    by (simp add: initial_def)
  show ?thesis
    using updateVolume_before_activation [OF c g, of "1 / 4"] c g
    by blast
qed

text \<open>
  C1 (the gain after noise has been switched off). From the mounted state with the
  default volume 0.5, the "Brown Noise" preset followed by the "Theta" preset leaves tones
  playing and noise stopped, with the mix gain still at \<open>0.5 * 0.1\<close>: switching noise off
  does not put the gain back to the volume.
\<close>

theorem gain_stays_scaled_after_noise_stops:
  "let s = setBrainwavePreset (Some 4)
             (setBrainwavePreset None (initial 2 (\<lambda>i. 0) True True))
   in \<not> isBrownNoisePlaying s \<and> isBinauralPlaying s \<and> volume s = 0.5 \<and>
      gainNode s = Some 2 \<and> gainValue s 2 = 0.05"
  by (simp add: initial_def component_defs platform_defs Let_def cong: run_cong)

section \<open>Toggling the sources\<close>

lemma ensureAudioContext_frame:
  assumes "consistent s"
  shows "isBrownNoisePlaying (ensureAudioContext s) = isBrownNoisePlaying s"
    and "isBinauralPlaying (ensureAudioContext s) = isBinauralPlaying s"
    and "brownNoiseNode (ensureAudioContext s) = brownNoiseNode s"
    and "leftOscillator (ensureAudioContext s) = leftOscillator s"
    and "rightOscillator (ensureAudioContext s) = rightOscillator s"
    and "sampleRate (ensureAudioContext s) = sampleRate s"
    and "randoms (ensureAudioContext s) = randoms s"
    and "drawn (ensureAudioContext s) = drawn s"
    and "volume (ensureAudioContext s) = volume s"
    and "nextId s \<le> nextId (ensureAudioContext s)"
proof -
  have "isBrownNoisePlaying (ensureAudioContext s) = isBrownNoisePlaying s \<and>
        isBinauralPlaying (ensureAudioContext s) = isBinauralPlaying s \<and>
        brownNoiseNode (ensureAudioContext s) = brownNoiseNode s \<and>
        leftOscillator (ensureAudioContext s) = leftOscillator s \<and>
        rightOscillator (ensureAudioContext s) = rightOscillator s \<and>
        sampleRate (ensureAudioContext s) = sampleRate s \<and>
        randoms (ensureAudioContext s) = randoms s \<and>
        drawn (ensureAudioContext s) = drawn s \<and>
        volume (ensureAudioContext s) = volume s \<and>
        nextId s \<le> nextId (ensureAudioContext s)"
  proof (cases "audioContext s")
    case (Some c)
    then show ?thesis
      by (simp add: ensureAudioContext_present)
  next
    case None
    with assms have flags: "\<not> isBrownNoisePlaying s" "\<not> isBinauralPlaying s"
      by (auto simp add: consistent_def)
    show ?thesis
      by (simp add: ensureAudioContext_absent [OF None flags])
  qed
  then show "isBrownNoisePlaying (ensureAudioContext s) = isBrownNoisePlaying s"
    and "isBinauralPlaying (ensureAudioContext s) = isBinauralPlaying s"
    and "brownNoiseNode (ensureAudioContext s) = brownNoiseNode s"
    and "leftOscillator (ensureAudioContext s) = leftOscillator s"
    and "rightOscillator (ensureAudioContext s) = rightOscillator s"
    and "sampleRate (ensureAudioContext s) = sampleRate s"
    and "randoms (ensureAudioContext s) = randoms s"
    and "drawn (ensureAudioContext s) = drawn s"
    and "volume (ensureAudioContext s) = volume s"
    and "nextId s \<le> nextId (ensureAudioContext s)"
    by blast+
qed

lemma consistent_gain_present:
  assumes "consistent s" and "audioContext s = Some c"
  obtains g where "gainNode s = Some g"
  using assms by (auto simp add: consistent_def)

lemma consistent_fresh:
  assumes "consistent s"
  shows "nextId s \<notin> started s" and "nextId s \<notin> stopped s"
    and "Suc (nextId s) \<notin> started s" and "Suc (nextId s) \<notin> stopped s"
  using assms by (auto simp add: consistent_def)

lemma consistent_no_stale_reference:
  "consistent s \<Longrightarrow> sourceRefs s \<inter> stopped s = {}"
  by (auto simp add: consistent_def)

text \<open>
  C6. In every reachable state, after \<^verbatim>\<open>toggleBrownNoise\<close> has stopped the noise source
  the variable \<^verbatim>\<open>brownNoiseNode\<close> is null, and after \<^verbatim>\<open>toggleBinauralBeats\<close> has stopped
  the oscillators both oscillator variables are null; no source variable refers to a
  stopped node; and the node that the next toggle-on starts is one that had been neither
  started nor stopped when the toggle-off returned.
\<close>

theorem toggle_off_clears_references:
  assumes "consistent s"
  shows "(isBrownNoisePlaying s \<longrightarrow>
            (\<exists>n. brownNoiseNode s = Some n \<and> n \<in> stopped (toggleBrownNoise s)) \<and>
            brownNoiseNode (toggleBrownNoise s) = None \<and>
            sourceRefs (toggleBrownNoise s) \<inter> stopped (toggleBrownNoise s) = {} \<and>
            (\<exists>n'. brownNoiseNode (toggleBrownNoise (toggleBrownNoise s)) = Some n' \<and>
                  n' \<notin> stopped (toggleBrownNoise s) \<and> n' \<notin> started (toggleBrownNoise s))) \<and>
         (isBinauralPlaying s \<longrightarrow>
            (\<exists>l r. leftOscillator s = Some l \<and> rightOscillator s = Some r \<and>
                   l \<in> stopped (toggleBinauralBeats s) \<and> r \<in> stopped (toggleBinauralBeats s)) \<and>
            leftOscillator (toggleBinauralBeats s) = None \<and>
            rightOscillator (toggleBinauralBeats s) = None \<and>
            sourceRefs (toggleBinauralBeats s) \<inter> stopped (toggleBinauralBeats s) = {} \<and>
            (\<exists>l' r'. leftOscillator (toggleBinauralBeats (toggleBinauralBeats s)) = Some l' \<and>
                     rightOscillator (toggleBinauralBeats (toggleBinauralBeats s)) = Some r' \<and>
                     l' \<notin> stopped (toggleBinauralBeats s) \<and> l' \<notin> started (toggleBinauralBeats s) \<and>
                     r' \<notin> stopped (toggleBinauralBeats s) \<and> r' \<notin> started (toggleBinauralBeats s)))"
proof (intro conjI impI)
  assume on: "isBrownNoisePlaying s"
  with assms obtain c n where c: "audioContext s = Some c" and n: "brownNoiseNode s = Some n"
    by (auto simp add: consistent_def)
  from assms c obtain g where g: "gainNode s = Some g"
    by (rule consistent_gain_present)
  define u where "u = toggleBrownNoise s"
  have u: "consistent u"
    unfolding u_def using assms by (rule consistent_toggleBrownNoise)
  have uf: "audioContext u = Some c" "gainNode u = Some g" "\<not> isBrownNoisePlaying u"
    "brownNoiseNode u = None" "n \<in> stopped u"
    unfolding u_def using c g by (simp_all add: toggleBrownNoise_off [OF c n on])
  show "\<exists>n. brownNoiseNode s = Some n \<and> n \<in> stopped (toggleBrownNoise s)"
    using n uf(5) by (simp add: u_def)
  show "brownNoiseNode (toggleBrownNoise s) = None"
    using uf(4) by (simp add: u_def)
  show "sourceRefs (toggleBrownNoise s) \<inter> stopped (toggleBrownNoise s) = {}"
    using consistent_no_stale_reference [OF u] by (simp add: u_def)
  have "brownNoiseNode (toggleBrownNoise u) = Some (nextId u)"
    by (simp add: toggleBrownNoise_on [OF uf(1,2,3)])
  with consistent_fresh(1,2) [OF u]
  show "\<exists>n'. brownNoiseNode (toggleBrownNoise (toggleBrownNoise s)) = Some n' \<and>
             n' \<notin> stopped (toggleBrownNoise s) \<and> n' \<notin> started (toggleBrownNoise s)"
    by (simp add: u_def)
next
  assume on: "isBinauralPlaying s"
  with assms obtain c l r where c: "audioContext s = Some c"
    and l: "leftOscillator s = Some l" and r: "rightOscillator s = Some r"
    by (auto simp add: consistent_def)
  from assms c obtain g where g: "gainNode s = Some g"
    by (rule consistent_gain_present)
  define u where "u = toggleBinauralBeats s"
  have u: "consistent u"
    unfolding u_def using assms by (rule consistent_toggleBinauralBeats)
  have uf: "audioContext u = Some c" "gainNode u = Some g" "\<not> isBinauralPlaying u"
    "leftOscillator u = None" "rightOscillator u = None" "l \<in> stopped u" "r \<in> stopped u"
    unfolding u_def using c g by (simp_all add: toggleBinauralBeats_off [OF l r on])
  show "\<exists>l r. leftOscillator s = Some l \<and> rightOscillator s = Some r \<and>
              l \<in> stopped (toggleBinauralBeats s) \<and> r \<in> stopped (toggleBinauralBeats s)"
    using l r uf(6,7) by (simp add: u_def)
  show "leftOscillator (toggleBinauralBeats s) = None"
    using uf(4) by (simp add: u_def)
  show "rightOscillator (toggleBinauralBeats s) = None"
    using uf(5) by (simp add: u_def)
  show "sourceRefs (toggleBinauralBeats s) \<inter> stopped (toggleBinauralBeats s) = {}"
    using consistent_no_stale_reference [OF u] by (simp add: u_def)
  have "leftOscillator (toggleBinauralBeats u) = Some (nextId u) \<and>
        rightOscillator (toggleBinauralBeats u) = Some (Suc (nextId u))"
    by (simp add: toggleBinauralBeats_on [OF uf(3)] setupBinauralBeats_present [OF uf(1,2)])
  with consistent_fresh [OF u]
  show "\<exists>l' r'. leftOscillator (toggleBinauralBeats (toggleBinauralBeats s)) = Some l' \<and>
                rightOscillator (toggleBinauralBeats (toggleBinauralBeats s)) = Some r' \<and>
                l' \<notin> stopped (toggleBinauralBeats s) \<and> l' \<notin> started (toggleBinauralBeats s) \<and>
                r' \<notin> stopped (toggleBinauralBeats s) \<and> r' \<notin> started (toggleBinauralBeats s)"
    by (simp add: u_def)
qed

lemma toggleBrownNoise_flags:
  assumes "consistent s"
  shows "isBrownNoisePlaying (toggleBrownNoise s) = (\<not> isBrownNoisePlaying s)"
    and "isBinauralPlaying (toggleBrownNoise s) = isBinauralPlaying s"
proof -
  define e where "e = ensureAudioContext s"
  have e: "consistent e"
    unfolding e_def using assms by (rule consistent_ensureAudioContext)
  from audioContext_ensureAudioContext [OF assms]
  obtain c where c: "audioContext e = Some c"
    unfolding e_def by blast
  from e c obtain g where g: "gainNode e = Some g"
    by (rule consistent_gain_present)
  have fl: "isBrownNoisePlaying e = isBrownNoisePlaying s" "isBinauralPlaying e = isBinauralPlaying s"
    unfolding e_def by (rule ensureAudioContext_frame [OF assms])+
  have "isBrownNoisePlaying (toggleBrownNoise e) = (\<not> isBrownNoisePlaying e) \<and>
        isBinauralPlaying (toggleBrownNoise e) = isBinauralPlaying e"
  proof (cases "isBrownNoisePlaying e")
    case False
    then show ?thesis
      by (simp add: toggleBrownNoise_on [OF c g False])
  next
    case True
    with e obtain n where n: "brownNoiseNode e = Some n"
      by (auto simp add: consistent_def)
    from True show ?thesis
      by (simp add: toggleBrownNoise_off [OF c n True])
  qed
  then show "isBrownNoisePlaying (toggleBrownNoise s) = (\<not> isBrownNoisePlaying s)"
    and "isBinauralPlaying (toggleBrownNoise s) = isBinauralPlaying s"
    unfolding toggleBrownNoise_ensure [OF assms] e_def [symmetric] fl by blast+
qed

lemma toggleBinauralBeats_flags:
  assumes "consistent s"
  shows "isBinauralPlaying (toggleBinauralBeats s) = (\<not> isBinauralPlaying s)"
    and "isBrownNoisePlaying (toggleBinauralBeats s) = isBrownNoisePlaying s"
proof -
  have "isBinauralPlaying (toggleBinauralBeats s) = (\<not> isBinauralPlaying s) \<and>
        isBrownNoisePlaying (toggleBinauralBeats s) = isBrownNoisePlaying s"
  proof (cases "isBinauralPlaying s")
    case True
    with assms obtain l r where lr: "leftOscillator s = Some l" "rightOscillator s = Some r"
      by (auto simp add: consistent_def)
    from True show ?thesis
      by (simp add: toggleBinauralBeats_off [OF lr True])
  next
    case False
    define e where "e = ensureAudioContext s"
    have e: "consistent e"
      unfolding e_def using assms by (rule consistent_ensureAudioContext)
    from audioContext_ensureAudioContext [OF assms]
    obtain c where c: "audioContext e = Some c"
      unfolding e_def by blast
    from e c obtain g where g: "gainNode e = Some g"
      by (rule consistent_gain_present)
    have fl: "isBrownNoisePlaying e = isBrownNoisePlaying s"
      unfolding e_def by (rule ensureAudioContext_frame [OF assms])
    have "isBrownNoisePlaying (setupBinauralBeats e) = isBrownNoisePlaying e"
      by (simp add: setupBinauralBeats_present [OF c g])
    then show ?thesis
      using False fl
      by (simp add: toggleBinauralBeats_on [OF False] setupBinauralBeats_ensure [OF assms]
            e_def [symmetric])
  qed
  then show "isBinauralPlaying (toggleBinauralBeats s) = (\<not> isBinauralPlaying s)"
    and "isBrownNoisePlaying (toggleBinauralBeats s) = isBrownNoisePlaying s"
    by blast+
qed

lemma initial_flags:
  "\<not> isBrownNoisePlaying (initial rate rnd hasCanvas has2d)"
  "\<not> isBinauralPlaying (initial rate rnd hasCanvas has2d)"
  by (simp_all add: initial_def)

theorem toggle_off_clears_references_witness:
  "consistent (toggleBinauralBeats (toggleBrownNoise (initial 2 (\<lambda>i. 0) True True))) \<and>
   isBrownNoisePlaying (toggleBinauralBeats (toggleBrownNoise (initial 2 (\<lambda>i. 0) True True))) \<and>
   isBinauralPlaying (toggleBinauralBeats (toggleBrownNoise (initial 2 (\<lambda>i. 0) True True))) \<and>
   brownNoiseNode (toggleBrownNoise
     (toggleBinauralBeats (toggleBrownNoise (initial 2 (\<lambda>i. 0) True True)))) = None \<and>
   leftOscillator (toggleBinauralBeats
     (toggleBinauralBeats (toggleBrownNoise (initial 2 (\<lambda>i. 0) True True)))) = None \<and>
   rightOscillator (toggleBinauralBeats
     (toggleBinauralBeats (toggleBrownNoise (initial 2 (\<lambda>i. 0) True True)))) = None"
proof -
  have c1: "consistent (toggleBrownNoise (initial 2 (\<lambda>i. 0) True True))"
    by (rule consistent_toggleBrownNoise [OF consistent_initial])
  have c2: "consistent (toggleBinauralBeats (toggleBrownNoise (initial 2 (\<lambda>i. 0) True True)))"
    by (rule consistent_toggleBinauralBeats [OF c1])
  have n: "isBrownNoisePlaying (toggleBinauralBeats (toggleBrownNoise (initial 2 (\<lambda>i. 0) True True)))"
    by (simp add: toggleBinauralBeats_flags [OF c1] toggleBrownNoise_flags [OF consistent_initial]
          initial_flags)
  have t: "isBinauralPlaying (toggleBinauralBeats (toggleBrownNoise (initial 2 (\<lambda>i. 0) True True)))"
    by (simp add: toggleBinauralBeats_flags [OF c1] toggleBrownNoise_flags [OF consistent_initial]
          initial_flags)
  show ?thesis
    using toggle_off_clears_references [OF c2] c2 n t by blast
qed

text \<open>
  C8. In every reachable state with noise off, toggling noise on, off and on again assigns
  on the second activation a buffer object that did not exist when the toggle-off
  returned, filled by a new run of \<^verbatim>\<open>createBrownNoise\<close> on the values of
  \<^verbatim>\<open>Math.random()\<close> that follow those the first run consumed.
\<close>

theorem toggleBrownNoise_regenerates_buffer:
  assumes "consistent s" and "\<not> isBrownNoisePlaying s"
  shows "\<exists>n1 b1 n3 b3 g.
           brownNoiseNode (toggleBrownNoise s) = Some n1 \<and>
           bufferOf (toggleBrownNoise s) n1 = Some b1 \<and>
           channelData (toggleBrownNoise s) b1 =
             createBrownNoise 1 (sampleRate s) (\<lambda>i. randoms s (drawn s + i)) \<and>
           brownNoiseNode (toggleBrownNoise (toggleBrownNoise (toggleBrownNoise s))) = Some n3 \<and>
           bufferOf (toggleBrownNoise (toggleBrownNoise (toggleBrownNoise s))) n3 = Some b3 \<and>
           channelData (toggleBrownNoise (toggleBrownNoise (toggleBrownNoise s))) b3 =
             createBrownNoise 1 (sampleRate s) (\<lambda>i. randoms s (drawn s + sampleRate s + i)) \<and>
           b3 \<noteq> b1 \<and> n3 \<noteq> n1 \<and>
           nextId (toggleBrownNoise (toggleBrownNoise s)) \<le> b3 \<and>
           calls (toggleBrownNoise (toggleBrownNoise (toggleBrownNoise s))) =
             calls (toggleBrownNoise (toggleBrownNoise s)) @
               [CreateBufferSource n3, NewAudioBuffer b3, Connect n3 g 0 0, Start n3]"
proof -
  define e where "e = ensureAudioContext s"
  have e: "consistent e"
    unfolding e_def using assms(1) by (rule consistent_ensureAudioContext)
  from audioContext_ensureAudioContext [OF assms(1)]
  obtain c where c: "audioContext e = Some c"
    unfolding e_def by blast
  from e c obtain g where g: "gainNode e = Some g"
    by (rule consistent_gain_present)
  have ef: "\<not> isBrownNoisePlaying e" "sampleRate e = sampleRate s" "randoms e = randoms s"
    "drawn e = drawn s"
    unfolding e_def using assms(2) by (simp_all add: ensureAudioContext_frame [OF assms(1)])
  define s1 where "s1 = toggleBrownNoise s"
  have s1: "s1 = toggleBrownNoise e"
    unfolding s1_def e_def by (rule toggleBrownNoise_ensure [OF assms(1)])
  have f1: "audioContext s1 = Some c" "gainNode s1 = Some g" "isBrownNoisePlaying s1"
    "brownNoiseNode s1 = Some (nextId e)" "bufferOf s1 (nextId e) = Some (Suc (nextId e))"
    "channelData s1 (Suc (nextId e)) =
       createBrownNoise 1 (sampleRate s) (\<lambda>i. randoms s (drawn s + i))"
    "nextId s1 = Suc (Suc (nextId e))" "drawn s1 = drawn s + sampleRate s"
    "sampleRate s1 = sampleRate s" "randoms s1 = randoms s"
    unfolding s1 using c g ef(2,3,4)
    by (simp_all add: toggleBrownNoise_on [OF c g ef(1)])
  define s2 where "s2 = toggleBrownNoise s1"
  have f2: "audioContext s2 = Some c" "gainNode s2 = Some g" "\<not> isBrownNoisePlaying s2"
    "nextId s2 = Suc (Suc (nextId e))" "drawn s2 = drawn s + sampleRate s"
    "sampleRate s2 = sampleRate s" "randoms s2 = randoms s"
    unfolding s2_def using f1
    by (simp_all add: toggleBrownNoise_off [OF f1(1) f1(4) f1(3)])
  define s3 where "s3 = toggleBrownNoise s2"
  have f3: "brownNoiseNode s3 = Some (nextId s2)" "bufferOf s3 (nextId s2) = Some (Suc (nextId s2))"
    "channelData s3 (Suc (nextId s2)) =
       createBrownNoise 1 (sampleRate s2) (\<lambda>i. randoms s2 (drawn s2 + i))"
    "calls s3 = calls s2 @
       [CreateBufferSource (nextId s2), NewAudioBuffer (Suc (nextId s2)),
        Connect (nextId s2) g 0 0, Start (nextId s2)]"
    unfolding s3_def by (simp_all add: toggleBrownNoise_on [OF f2(1,2,3)])
  have "brownNoiseNode s1 = Some (nextId e) \<and>
        bufferOf s1 (nextId e) = Some (Suc (nextId e)) \<and>
        channelData s1 (Suc (nextId e)) =
          createBrownNoise 1 (sampleRate s) (\<lambda>i. randoms s (drawn s + i)) \<and>
        brownNoiseNode s3 = Some (nextId s2) \<and>
        bufferOf s3 (nextId s2) = Some (Suc (nextId s2)) \<and>
        channelData s3 (Suc (nextId s2)) =
          createBrownNoise 1 (sampleRate s) (\<lambda>i. randoms s (drawn s + sampleRate s + i)) \<and>
        Suc (nextId s2) \<noteq> Suc (nextId e) \<and> nextId s2 \<noteq> nextId e \<and>
        nextId s2 \<le> Suc (nextId s2) \<and>
        calls s3 = calls s2 @
          [CreateBufferSource (nextId s2), NewAudioBuffer (Suc (nextId s2)),
           Connect (nextId s2) g 0 0, Start (nextId s2)]"
    using f1 f2 f3 by simp
  then show ?thesis
    unfolding s3_def s2_def s1_def by blast
qed

theorem toggleBrownNoise_regenerates_buffer_witness:
  "consistent (initial 2 (\<lambda>i. 0) True True) \<and>
   \<not> isBrownNoisePlaying (initial 2 (\<lambda>i. 0) True True) \<and>
   (\<exists>n3 b3. brownNoiseNode (toggleBrownNoise (toggleBrownNoise (toggleBrownNoise
                (initial 2 (\<lambda>i. 0) True True)))) = Some n3 \<and>
            bufferOf (toggleBrownNoise (toggleBrownNoise (toggleBrownNoise
                (initial 2 (\<lambda>i. 0) True True)))) n3 = Some b3 \<and>
            nextId (toggleBrownNoise (toggleBrownNoise (initial 2 (\<lambda>i. 0) True True))) \<le> b3)"
proof -
  have c: "consistent (initial 2 (\<lambda>i. 0) True True)"
    by (rule consistent_initial)
  have f: "\<not> isBrownNoisePlaying (initial 2 (\<lambda>i. 0) True True)"
    by (rule initial_flags)
  show ?thesis
    using toggleBrownNoise_regenerates_buffer [OF c f] c f by blast
qed

section \<open>Teardown\<close>

lemma onDestroy_cancelling:
  assumes "brownNoiseNode s = Some n" and "leftOscillator s = Some l"
    and "rightOscillator s = Some r" and "audioContext s = Some c"
    and "animationFrameId s = Some h" and "h \<noteq> 0"
  shows "onDestroy s =
     s\<lparr> frameRequests := removeAll h (frameRequests s),
        animationFrameId := None,
        stopped := insert r (insert l (insert n (stopped s))),
        connections := {e \<in> connections s. fst e \<noteq> n \<and> fst e \<noteq> l \<and> fst e \<noteq> r},
        closedContexts := insert c (closedContexts s),
        calls := calls s @
          [CancelAnimationFrame h, Stop n, Disconnect n, Stop l, Disconnect l,
           Stop r, Disconnect r, Close c] \<rparr>"
  using assms
  by (simp add: onDestroy_def platform_defs Let_def cong: run_cong)

lemma onDestroy_not_cancelling:
  assumes "brownNoiseNode s = Some n" and "leftOscillator s = Some l"
    and "rightOscillator s = Some r" and "audioContext s = Some c"
    and "\<not> truthy (animationFrameId s)"
  shows "onDestroy s =
     s\<lparr> stopped := insert r (insert l (insert n (stopped s))),
        connections := {e \<in> connections s. fst e \<noteq> n \<and> fst e \<noteq> l \<and> fst e \<noteq> r},
        closedContexts := insert c (closedContexts s),
        calls := calls s @
          [Stop n, Disconnect n, Stop l, Disconnect l, Stop r, Disconnect r, Close c] \<rparr>"
  using assms
  by (simp add: onDestroy_def stop_def disconnect_def close_def Let_def cong: run_cong)

text \<open>
  C7. In every reachable state in which both the noise source and the tones are playing,
  the teardown handler makes exactly these platform calls, in this order: the
  cancellation of the redraw whose handle is held (when one is held; a pending redraw
  always is), then stop and disconnect of the noise source, of the left and of the right
  oscillator, then the release of the audio context. Afterwards no animation-frame
  callback is pending, the three sources are stopped and have no outgoing connection, and
  the context is closed.
\<close>

theorem onDestroy_teardown:
  assumes "consistent s" and "isBrownNoisePlaying s" and "isBinauralPlaying s"
  shows "\<exists>n l r c cancels.
           brownNoiseNode s = Some n \<and> leftOscillator s = Some l \<and>
           rightOscillator s = Some r \<and> audioContext s = Some c \<and>
           calls (onDestroy s) =
             calls s @ cancels @
               [Stop n, Disconnect n, Stop l, Disconnect l, Stop r, Disconnect r, Close c] \<and>
           (cancels = [] \<or> (\<exists>h. cancels = [CancelAnimationFrame h])) \<and>
           (\<forall>h \<in> set (frameRequests s). cancels = [CancelAnimationFrame h]) \<and>
           frameRequests (onDestroy s) = [] \<and>
           {n, l, r} \<subseteq> stopped (onDestroy s) \<and>
           (\<forall>e \<in> connections (onDestroy s). fst e \<notin> {n, l, r}) \<and>
           c \<in> closedContexts (onDestroy s)"
proof -
  from assms obtain n l r c where n: "brownNoiseNode s = Some n"
    and l: "leftOscillator s = Some l" and r: "rightOscillator s = Some r"
    and c: "audioContext s = Some c"
    by (auto simp add: consistent_def)
  define d where "d = onDestroy s"
  show ?thesis
  proof (cases "truthy (animationFrameId s)")
    case True
    then obtain h where h: "animationFrameId s = Some h" and h0: "h \<noteq> 0"
      by (cases "animationFrameId s") (simp_all add: truthy_def)
    have pending: "frameRequests s = [] \<or> frameRequests s = [h]"
      using assms(1) h by (auto simp add: consistent_def)
    have d: "calls d = calls s @ [CancelAnimationFrame h] @
               [Stop n, Disconnect n, Stop l, Disconnect l, Stop r, Disconnect r, Close c]"
      "frameRequests d = removeAll h (frameRequests s)"
      "stopped d = insert r (insert l (insert n (stopped s)))"
      "connections d = {e \<in> connections s. fst e \<noteq> n \<and> fst e \<noteq> l \<and> fst e \<noteq> r}"
      "closedContexts d = insert c (closedContexts s)"
      unfolding d_def by (simp_all add: onDestroy_cancelling [OF n l r c h h0])
    have "\<forall>k \<in> set (frameRequests s). [CancelAnimationFrame h] = [CancelAnimationFrame k]"
      using pending by auto
    moreover have "frameRequests d = []"
      using pending d(2) by auto
    moreover have "{n, l, r} \<subseteq> stopped d"
      by (simp add: d(3))
    moreover have "\<forall>e \<in> connections d. fst e \<notin> {n, l, r}"
      by (simp add: d(4))
    moreover have "c \<in> closedContexts d"
      by (simp add: d(5))
    moreover have "[CancelAnimationFrame h] = [] \<or> (\<exists>k. [CancelAnimationFrame h] = [CancelAnimationFrame k])"
      by simp
    ultimately show ?thesis
      using n l r c d(1) unfolding d_def by blast
  next
    case False
    have none: "frameRequests s = []"
      using assms(1) False by (rule not_truthy_no_requests)
    have d: "calls d = calls s @ [] @
               [Stop n, Disconnect n, Stop l, Disconnect l, Stop r, Disconnect r, Close c]"
      "frameRequests d = frameRequests s"
      "stopped d = insert r (insert l (insert n (stopped s)))"
      "connections d = {e \<in> connections s. fst e \<noteq> n \<and> fst e \<noteq> l \<and> fst e \<noteq> r}"
      "closedContexts d = insert c (closedContexts s)"
      unfolding d_def by (simp_all add: onDestroy_not_cancelling [OF n l r c False])
    have "\<forall>k \<in> set (frameRequests s). [] = [CancelAnimationFrame k]"
      using none by simp
    moreover have "frameRequests d = []"
      using none d(2) by simp
    moreover have "{n, l, r} \<subseteq> stopped d"
      by (simp add: d(3))
    moreover have "\<forall>e \<in> connections d. fst e \<notin> {n, l, r}"
      by (simp add: d(4))
    moreover have "c \<in> closedContexts d"
      by (simp add: d(5))
    moreover have "([]::call list) = [] \<or> (\<exists>k. [] = [CancelAnimationFrame k])"
      by simp
    ultimately show ?thesis
      using n l r c d(1) unfolding d_def by blast
  qed
qed

lemma both_playing_with_redraw_pending:
  "let s = toggleBrownNoise (setBrainwavePreset (Some 4) (initial 2 (\<lambda>i. 0) True True))
   in isBrownNoisePlaying s \<and> isBinauralPlaying s \<and> frameRequests s = [1] \<and>
      brownNoiseNode s = Some 9 \<and> leftOscillator s = Some 4 \<and> rightOscillator s = Some 5 \<and>
      audioContext s = Some 0"
  by (simp add: initial_def component_defs platform_defs Let_def cong: run_cong)

theorem onDestroy_teardown_witness:
  "consistent (toggleBrownNoise (setBrainwavePreset (Some 4) (initial 2 (\<lambda>i. 0) True True))) \<and>
   isBrownNoisePlaying
     (toggleBrownNoise (setBrainwavePreset (Some 4) (initial 2 (\<lambda>i. 0) True True))) \<and>
   isBinauralPlaying
     (toggleBrownNoise (setBrainwavePreset (Some 4) (initial 2 (\<lambda>i. 0) True True))) \<and>
   calls (onDestroy
     (toggleBrownNoise (setBrainwavePreset (Some 4) (initial 2 (\<lambda>i. 0) True True)))) =
     calls (toggleBrownNoise (setBrainwavePreset (Some 4) (initial 2 (\<lambda>i. 0) True True))) @
       [CancelAnimationFrame 1, Stop 9, Disconnect 9, Stop 4, Disconnect 4,
        Stop 5, Disconnect 5, Close 0] \<and>
   frameRequests (onDestroy
     (toggleBrownNoise (setBrainwavePreset (Some 4) (initial 2 (\<lambda>i. 0) True True)))) = []"
proof -
  define w where "w = toggleBrownNoise (setBrainwavePreset (Some 4) (initial 2 (\<lambda>i. 0) True True))"
  have c: "consistent w"
    unfolding w_def
    by (intro consistent_toggleBrownNoise consistent_setBrainwavePreset consistent_initial)
  note f = both_playing_with_redraw_pending [unfolded Let_def, folded w_def]
  from f have n: "isBrownNoisePlaying w" and t: "isBinauralPlaying w"
    by blast+
  from onDestroy_teardown [OF c n t]
  obtain n l r k cancels where all:
    "brownNoiseNode w = Some n \<and> leftOscillator w = Some l \<and>
     rightOscillator w = Some r \<and> audioContext w = Some k \<and>
     calls (onDestroy w) =
       calls w @ cancels @
         [Stop n, Disconnect n, Stop l, Disconnect l, Stop r, Disconnect r, Close k] \<and>
     (cancels = [] \<or> (\<exists>h. cancels = [CancelAnimationFrame h])) \<and>
     (\<forall>h \<in> set (frameRequests w). cancels = [CancelAnimationFrame h]) \<and>
     frameRequests (onDestroy w) = [] \<and>
     {n, l, r} \<subseteq> stopped (onDestroy w) \<and>
     (\<forall>e \<in> connections (onDestroy w). fst e \<notin> {n, l, r}) \<and>
     k \<in> closedContexts (onDestroy w)"
    by (elim exE) (rule that)
  from all have refs: "brownNoiseNode w = Some n" "leftOscillator w = Some l"
    "rightOscillator w = Some r" "audioContext w = Some k"
    by simp_all
  from all have calls: "calls (onDestroy w) =
      calls w @ cancels @ [Stop n, Disconnect n, Stop l, Disconnect l, Stop r, Disconnect r, Close k]"
    by simp
  from all have pending: "\<forall>h \<in> set (frameRequests w). cancels = [CancelAnimationFrame h]"
    by simp
  from all have none: "frameRequests (onDestroy w) = []"
    by simp
  from f have fr: "frameRequests w = [1]" and fn: "brownNoiseNode w = Some 9"
    and fl: "leftOscillator w = Some 4" and frr: "rightOscillator w = Some 5"
    and fc: "audioContext w = Some 0"
    by simp_all
  from refs fn fl frr fc have ids: "n = 9" "l = 4" "r = 5" "k = 0"
    by simp_all
  from pending fr have cancels: "cancels = [CancelAnimationFrame 1]"
    by simp
  have "calls (onDestroy w) =
     calls w @ [CancelAnimationFrame 1, Stop 9, Disconnect 9, Stop 4, Disconnect 4,
        Stop 5, Disconnect 5, Close 0]"
    unfolding calls cancels ids by simp
  with none c n t show ?thesis
    unfolding w_def by (intro conjI)
qed

section \<open>The per-channel gain nodes of the tones\<close>



section \<open>Preset selection\<close>

lemma drawWaveform_frame:
  "isBrownNoisePlaying (drawWaveform t) = isBrownNoisePlaying t"
  "isBinauralPlaying (drawWaveform t) = isBinauralPlaying t"
  "brownNoiseNode (drawWaveform t) = brownNoiseNode t"
  "leftOscillator (drawWaveform t) = leftOscillator t"
  "rightOscillator (drawWaveform t) = rightOscillator t"
proof -
  have "isBrownNoisePlaying (drawWaveform t) = isBrownNoisePlaying t \<and>
        isBinauralPlaying (drawWaveform t) = isBinauralPlaying t \<and>
        brownNoiseNode (drawWaveform t) = brownNoiseNode t \<and>
        leftOscillator (drawWaveform t) = leftOscillator t \<and>
        rightOscillator (drawWaveform t) = rightOscillator t"
  proof (cases "analyserNode t = None \<or> \<not> canvas t \<or> \<not> context2d t")
    case True
    then show ?thesis
      by (simp only: drawWaveform_skip)
  next
    case False
    then obtain a where a: "analyserNode t = Some a" and c: "canvas t" and d: "context2d t"
      by auto
    show ?thesis
      by (simp add: drawWaveform_draw [OF a c d])
  qed
  then show "isBrownNoisePlaying (drawWaveform t) = isBrownNoisePlaying t"
    "isBinauralPlaying (drawWaveform t) = isBinauralPlaying t"
    "brownNoiseNode (drawWaveform t) = brownNoiseNode t"
    "leftOscillator (drawWaveform t) = leftOscillator t"
    "rightOscillator (drawWaveform t) = rightOscillator t"
    by simp_all
qed

lemma drawWaveform_calls:
  "\<exists>rest. calls (drawWaveform t) = calls t @ rest \<and>
          (rest = [] \<or> (\<exists>h. rest = [RequestAnimationFrame h]))"
proof (cases "analyserNode t = None \<or> \<not> canvas t \<or> \<not> context2d t")
  case True
  then show ?thesis
    by (simp only: drawWaveform_skip) simp
next
  case False
  then obtain a where a: "analyserNode t = Some a" and c: "canvas t" and d: "context2d t"
    by auto
  show ?thesis
    by (simp add: drawWaveform_draw [OF a c d])
qed

lemma cancel_frame:
  "isBrownNoisePlaying ((whenSome (animationFrameId t) cancelAnimationFrame t)
      \<lparr> animationFrameId := None \<rparr>) = isBrownNoisePlaying t"
  "isBinauralPlaying ((whenSome (animationFrameId t) cancelAnimationFrame t)
      \<lparr> animationFrameId := None \<rparr>) = isBinauralPlaying t"
  by (cases "animationFrameId t"; simp add: cancelAnimationFrame_def)+

lemma redraw_policy_flags:
  "isBrownNoisePlaying
     (if (isBrownNoisePlaying t \<or> isBinauralPlaying t) \<and> \<not> truthy (animationFrameId t)
      then drawWaveform t
      else if \<not> isBrownNoisePlaying t \<and> \<not> isBinauralPlaying t \<and> truthy (animationFrameId t)
      then (whenSome (animationFrameId t) cancelAnimationFrame t)\<lparr> animationFrameId := None \<rparr>
      else t) = isBrownNoisePlaying t"
  "isBinauralPlaying
     (if (isBrownNoisePlaying t \<or> isBinauralPlaying t) \<and> \<not> truthy (animationFrameId t)
      then drawWaveform t
      else if \<not> isBrownNoisePlaying t \<and> \<not> isBinauralPlaying t \<and> truthy (animationFrameId t)
      then (whenSome (animationFrameId t) cancelAnimationFrame t)\<lparr> animationFrameId := None \<rparr>
      else t) = isBinauralPlaying t"
  by (simp_all add: drawWaveform_frame cancel_frame)

lemma redraw_policy_playing:
  assumes "isBrownNoisePlaying t \<or> isBinauralPlaying t"
  shows "\<exists>rest.
     calls
       (if (isBrownNoisePlaying t \<or> isBinauralPlaying t) \<and> \<not> truthy (animationFrameId t)
        then drawWaveform t
        else if \<not> isBrownNoisePlaying t \<and> \<not> isBinauralPlaying t \<and> truthy (animationFrameId t)
        then (whenSome (animationFrameId t) cancelAnimationFrame t)\<lparr> animationFrameId := None \<rparr>
        else t) = calls t @ rest \<and>
     (rest = [] \<or> (\<exists>h. rest = [RequestAnimationFrame h]))"
proof (cases "truthy (animationFrameId t)")
  case True
  with assms show ?thesis
    by auto
next
  case False
  with assms drawWaveform_calls [of t] show ?thesis
    by auto
qed

lemma updateBinauralBeats_flags:
  "isBrownNoisePlaying (updateBinauralBeats t) = isBrownNoisePlaying t"
  "isBinauralPlaying (updateBinauralBeats t) = isBinauralPlaying t"
  by (cases "leftOscillator t"; cases "rightOscillator t";
      simp add: updateBinauralBeats_def Let_def)+

lemma tones_playing_from_initial:
  "let t = setBrainwavePreset (Some 4) (initial 2 (\<lambda>i. 0) True True);
       s = setBrainwavePreset None t
   in isBinauralPlaying t \<and> \<not> isBrownNoisePlaying t \<and>
      leftOscillator t = Some 4 \<and> rightOscillator t = Some 5 \<and>
      brownNoiseNode s = Some 9 \<and> isBrownNoisePlaying s \<and> \<not> isBinauralPlaying s \<and>
      \<not> precedes (Stop 4) (Start 9) (calls s) \<and>
      precedes (Start 9) (Stop 4) (calls s)"
  by (simp add: initial_def component_defs platform_defs Let_def cong: run_cong)

text \<open>
  C3 (as stated). The claim asks that a preset selected while the other mode is active
  stops the other mode before it starts the selected one, also when the noise preset is
  selected while tones play. From the mounted state, the "Theta" preset starts the tones
  (oscillators 4 and 5); the "Brown Noise" preset then starts the noise source 9 first and
  stops the oscillators afterwards: in the log, \<open>Stop 4\<close> does not come before
  \<open>Start 9\<close>.
\<close>

theorem noise_preset_starts_noise_first_counterexample:
  "isBinauralPlaying (setBrainwavePreset (Some 4) (initial 2 (\<lambda>i. 0) True True)) \<and>
   \<not> isBrownNoisePlaying (setBrainwavePreset (Some 4) (initial 2 (\<lambda>i. 0) True True)) \<and>
   leftOscillator (setBrainwavePreset (Some 4) (initial 2 (\<lambda>i. 0) True True)) = Some 4 \<and>
   brownNoiseNode (setBrainwavePreset None
     (setBrainwavePreset (Some 4) (initial 2 (\<lambda>i. 0) True True))) = Some 9 \<and>
   \<not> precedes (Stop 4) (Start 9) (calls (setBrainwavePreset None
     (setBrainwavePreset (Some 4) (initial 2 (\<lambda>i. 0) True True)))) \<and>
   precedes (Start 9) (Stop 4) (calls (setBrainwavePreset None
     (setBrainwavePreset (Some 4) (initial 2 (\<lambda>i. 0) True True))))"
  using tones_playing_from_initial [unfolded Let_def] by simp

lemma redraw_policy_refs:
  "brownNoiseNode
     (if (isBrownNoisePlaying t \<or> isBinauralPlaying t) \<and> \<not> truthy (animationFrameId t)
      then drawWaveform t
      else if \<not> isBrownNoisePlaying t \<and> \<not> isBinauralPlaying t \<and> truthy (animationFrameId t)
      then (whenSome (animationFrameId t) cancelAnimationFrame t)\<lparr> animationFrameId := None \<rparr>
      else t) = brownNoiseNode t"
  "leftOscillator
     (if (isBrownNoisePlaying t \<or> isBinauralPlaying t) \<and> \<not> truthy (animationFrameId t)
      then drawWaveform t
      else if \<not> isBrownNoisePlaying t \<and> \<not> isBinauralPlaying t \<and> truthy (animationFrameId t)
      then (whenSome (animationFrameId t) cancelAnimationFrame t)\<lparr> animationFrameId := None \<rparr>
      else t) = leftOscillator t"
  "rightOscillator
     (if (isBrownNoisePlaying t \<or> isBinauralPlaying t) \<and> \<not> truthy (animationFrameId t)
      then drawWaveform t
      else if \<not> isBrownNoisePlaying t \<and> \<not> isBinauralPlaying t \<and> truthy (animationFrameId t)
      then (whenSome (animationFrameId t) cancelAnimationFrame t)\<lparr> animationFrameId := None \<rparr>
      else t) = rightOscillator t"
  by (cases "animationFrameId t"; simp add: drawWaveform_frame cancelAnimationFrame_def)+

text \<open>
  C3 (amended). In every reachable state: a frequency preset selected while only noise
  plays stops and disconnects the noise source before it creates, wires and starts the
  oscillators; the noise preset selected while only tones play creates and starts the
  noise source first and stops and disconnects the oscillators afterwards; and whatever
  preset is selected, noise and tones are not both playing when the call returns. The
  only call that may follow is the request of an animation frame.
\<close>

theorem setBrainwavePreset_switches_modes:
  assumes "consistent s"
  shows "(isBrownNoisePlaying s \<and> \<not> isBinauralPlaying s \<longrightarrow>
            (\<exists>n l g rest.
               brownNoiseNode s = Some n \<and>
               leftOscillator (setBrainwavePreset (Some f) s) = Some l \<and>
               rightOscillator (setBrainwavePreset (Some f) s) = Some (Suc l) \<and>
               calls (setBrainwavePreset (Some f) s) =
                 calls s @
                 [Stop n, Disconnect n,
                  CreateOscillator l, CreateOscillator (Suc l),
                  CreateGain (Suc (Suc l)), CreateGain (Suc (Suc (Suc l))),
                  CreateChannelMerger (Suc (Suc (Suc (Suc l)))),
                  Connect l (Suc (Suc l)) 0 0,
                  Connect (Suc (Suc l)) (Suc (Suc (Suc (Suc l)))) 0 0,
                  Connect (Suc l) (Suc (Suc (Suc l))) 0 0,
                  Connect (Suc (Suc (Suc l))) (Suc (Suc (Suc (Suc l)))) 0 1,
                  Connect (Suc (Suc (Suc (Suc l)))) g 0 0,
                  Start l, Start (Suc l)] @ rest \<and>
               (rest = [] \<or> (\<exists>h. rest = [RequestAnimationFrame h])))) \<and>
         (isBinauralPlaying s \<and> \<not> isBrownNoisePlaying s \<longrightarrow>
            (\<exists>l r n g rest.
               leftOscillator s = Some l \<and> rightOscillator s = Some r \<and>
               brownNoiseNode (setBrainwavePreset None s) = Some n \<and>
               calls (setBrainwavePreset None s) =
                 calls s @
                 [CreateBufferSource n, NewAudioBuffer (Suc n), Connect n g 0 0, Start n,
                  Stop l, Stop r, Disconnect l, Disconnect r] @ rest \<and>
               (rest = [] \<or> (\<exists>h. rest = [RequestAnimationFrame h])))) \<and>
         \<not> (isBrownNoisePlaying (setBrainwavePreset frequency s) \<and>
            isBinauralPlaying (setBrainwavePreset frequency s))"
proof (intro conjI impI)
  let ?P = "\<lambda>t. if (isBrownNoisePlaying t \<or> isBinauralPlaying t) \<and> \<not> truthy (animationFrameId t)
      then drawWaveform t
      else if \<not> isBrownNoisePlaying t \<and> \<not> isBinauralPlaying t \<and> truthy (animationFrameId t)
      then (whenSome (animationFrameId t) cancelAnimationFrame t)\<lparr> animationFrameId := None \<rparr>
      else t"
  {
    assume "isBrownNoisePlaying s \<and> \<not> isBinauralPlaying s"
    then have on: "isBrownNoisePlaying s" and off: "\<not> isBinauralPlaying s"
      by simp_all
    from assms on obtain c n where c: "audioContext s = Some c" and n: "brownNoiseNode s = Some n"
      by (auto simp add: consistent_def)
    from assms c obtain g where g: "gainNode s = Some g"
      by (rule consistent_gain_present)
    define t1 where "t1 = s\<lparr> beatFrequency := f \<rparr>"
    have t1: "audioContext t1 = Some c" "brownNoiseNode t1 = Some n" "isBrownNoisePlaying t1"
      "gainNode t1 = Some g" "\<not> isBinauralPlaying t1" "calls t1 = calls s" "nextId t1 = nextId s"
      unfolding t1_def using c n on g off by simp_all
    define t2 where "t2 = toggleBrownNoise t1"
    have t2: "audioContext t2 = Some c" "gainNode t2 = Some g" "\<not> isBinauralPlaying t2"
      "\<not> isBrownNoisePlaying t2" "calls t2 = calls s @ [Stop n, Disconnect n]"
      "nextId t2 = nextId s"
      unfolding t2_def using t1 by (simp_all add: toggleBrownNoise_off [OF t1(1,2,3)])
    define t3 where "t3 = toggleBinauralBeats t2"
    have t3eq: "t3 = (setupBinauralBeats t2)\<lparr> isBinauralPlaying := True \<rparr>"
      unfolding t3_def by (rule toggleBinauralBeats_on [OF t2(3)])
    define l where "l = nextId s"
    have t3: "isBinauralPlaying t3" "leftOscillator t3 = Some l" "rightOscillator t3 = Some (Suc l)"
      "calls t3 = calls s @
         [Stop n, Disconnect n,
          CreateOscillator l, CreateOscillator (Suc l),
          CreateGain (Suc (Suc l)), CreateGain (Suc (Suc (Suc l))),
          CreateChannelMerger (Suc (Suc (Suc (Suc l)))),
          Connect l (Suc (Suc l)) 0 0,
          Connect (Suc (Suc l)) (Suc (Suc (Suc (Suc l)))) 0 0,
          Connect (Suc l) (Suc (Suc (Suc l))) 0 0,
          Connect (Suc (Suc (Suc l))) (Suc (Suc (Suc (Suc l)))) 0 1,
          Connect (Suc (Suc (Suc (Suc l)))) g 0 0,
          Start l, Start (Suc l)]"
      unfolding t3eq l_def using t2
      by (simp_all add: setupBinauralBeats_present [OF t2(1,2)])
    have sb: "(if isBrownNoisePlaying t1 then toggleBrownNoise t1 else t1) = t2"
      using t1(3) by (simp add: t2_def)
    have tt: "(if \<not> isBinauralPlaying t2 then toggleBinauralBeats t2 else updateBinauralBeats t2) = t3"
      using t2(3) by (simp add: t3_def)
    have res: "setBrainwavePreset (Some f) s = ?P t3"
      by (simp only: setBrainwavePreset_def Let_def option.case t1_def [symmetric] sb tt)
    from redraw_policy_playing [of t3] t3(1)
    obtain rest where rest: "calls (?P t3) = calls t3 @ rest"
      "rest = [] \<or> (\<exists>h. rest = [RequestAnimationFrame h])"
      by blast
    have "brownNoiseNode s = Some n \<and>
          leftOscillator (setBrainwavePreset (Some f) s) = Some l \<and>
          rightOscillator (setBrainwavePreset (Some f) s) = Some (Suc l) \<and>
          calls (setBrainwavePreset (Some f) s) =
            calls s @
            [Stop n, Disconnect n,
             CreateOscillator l, CreateOscillator (Suc l),
             CreateGain (Suc (Suc l)), CreateGain (Suc (Suc (Suc l))),
             CreateChannelMerger (Suc (Suc (Suc (Suc l)))),
             Connect l (Suc (Suc l)) 0 0,
             Connect (Suc (Suc l)) (Suc (Suc (Suc (Suc l)))) 0 0,
             Connect (Suc l) (Suc (Suc (Suc l))) 0 0,
             Connect (Suc (Suc (Suc l))) (Suc (Suc (Suc (Suc l)))) 0 1,
             Connect (Suc (Suc (Suc (Suc l)))) g 0 0,
             Start l, Start (Suc l)] @ rest \<and>
          (rest = [] \<or> (\<exists>h. rest = [RequestAnimationFrame h]))"
      unfolding res redraw_policy_refs rest(1) using n t3(2,3,4) rest(2) by simp
    then show "\<exists>n l g rest.
               brownNoiseNode s = Some n \<and>
               leftOscillator (setBrainwavePreset (Some f) s) = Some l \<and>
               rightOscillator (setBrainwavePreset (Some f) s) = Some (Suc l) \<and>
               calls (setBrainwavePreset (Some f) s) =
                 calls s @
                 [Stop n, Disconnect n,
                  CreateOscillator l, CreateOscillator (Suc l),
                  CreateGain (Suc (Suc l)), CreateGain (Suc (Suc (Suc l))),
                  CreateChannelMerger (Suc (Suc (Suc (Suc l)))),
                  Connect l (Suc (Suc l)) 0 0,
                  Connect (Suc (Suc l)) (Suc (Suc (Suc (Suc l)))) 0 0,
                  Connect (Suc l) (Suc (Suc (Suc l))) 0 0,
                  Connect (Suc (Suc (Suc l))) (Suc (Suc (Suc (Suc l)))) 0 1,
                  Connect (Suc (Suc (Suc (Suc l)))) g 0 0,
                  Start l, Start (Suc l)] @ rest \<and>
               (rest = [] \<or> (\<exists>h. rest = [RequestAnimationFrame h]))"
      by (intro exI)
  }
  {
    assume "isBinauralPlaying s \<and> \<not> isBrownNoisePlaying s"
    then have on: "isBinauralPlaying s" and off: "\<not> isBrownNoisePlaying s"
      by simp_all
    from assms on obtain c l r where c: "audioContext s = Some c"
      and l: "leftOscillator s = Some l" and r: "rightOscillator s = Some r"
      by (auto simp add: consistent_def)
    from assms c obtain g where g: "gainNode s = Some g"
      by (rule consistent_gain_present)
    define n where "n = nextId s"
    define t2 where "t2 = toggleBrownNoise s"
    have t2: "leftOscillator t2 = Some l" "rightOscillator t2 = Some r" "isBinauralPlaying t2"
      "isBrownNoisePlaying t2" "brownNoiseNode t2 = Some n"
      "calls t2 = calls s @
         [CreateBufferSource n, NewAudioBuffer (Suc n), Connect n g 0 0, Start n]"
      unfolding t2_def n_def using l r on
      by (simp_all add: toggleBrownNoise_on [OF c g off])
    define t3 where "t3 = toggleBinauralBeats t2"
    have t3: "isBrownNoisePlaying t3" "brownNoiseNode t3 = Some n"
      "calls t3 = calls s @
         [CreateBufferSource n, NewAudioBuffer (Suc n), Connect n g 0 0, Start n,
          Stop l, Stop r, Disconnect l, Disconnect r]"
      unfolding t3_def using t2
      by (simp_all add: toggleBinauralBeats_off [OF t2(1,2,3)])
    have tt: "(if isBinauralPlaying t2 then toggleBinauralBeats t2 else t2) = t3"
      using t2(3) by (simp add: t3_def)
    have res: "setBrainwavePreset None s = ?P t3"
      by (simp only: setBrainwavePreset_def Let_def option.case t2_def [symmetric] tt)
    from redraw_policy_playing [of t3] t3(1)
    obtain rest where rest: "calls (?P t3) = calls t3 @ rest"
      "rest = [] \<or> (\<exists>h. rest = [RequestAnimationFrame h])"
      by blast
    have "leftOscillator s = Some l \<and> rightOscillator s = Some r \<and>
          brownNoiseNode (setBrainwavePreset None s) = Some n \<and>
          calls (setBrainwavePreset None s) =
            calls s @
            [CreateBufferSource n, NewAudioBuffer (Suc n), Connect n g 0 0, Start n,
             Stop l, Stop r, Disconnect l, Disconnect r] @ rest \<and>
          (rest = [] \<or> (\<exists>h. rest = [RequestAnimationFrame h]))"
      unfolding res redraw_policy_refs rest(1) using l r t3(2,3) rest(2) by simp
    then show "\<exists>l r n g rest.
               leftOscillator s = Some l \<and> rightOscillator s = Some r \<and>
               brownNoiseNode (setBrainwavePreset None s) = Some n \<and>
               calls (setBrainwavePreset None s) =
                 calls s @
                 [CreateBufferSource n, NewAudioBuffer (Suc n), Connect n g 0 0, Start n,
                  Stop l, Stop r, Disconnect l, Disconnect r] @ rest \<and>
               (rest = [] \<or> (\<exists>h. rest = [RequestAnimationFrame h]))"
      by (intro exI)
  }
  {
    define t where "t =
      (case frequency of
         None \<Rightarrow>
           (let sa = toggleBrownNoise s
            in if isBinauralPlaying sa then toggleBinauralBeats sa else sa)
       | Some f \<Rightarrow>
           (let sa = s\<lparr> beatFrequency := f \<rparr>;
                sb = (if isBrownNoisePlaying sa then toggleBrownNoise sa else sa)
            in if \<not> isBinauralPlaying sb then toggleBinauralBeats sb
               else updateBinauralBeats sb))"
    have res: "setBrainwavePreset frequency s = ?P t"
      unfolding setBrainwavePreset_def t_def Let_def ..
    have excl: "\<not> (isBrownNoisePlaying t \<and> isBinauralPlaying t)"
    proof (cases frequency)
      case None
      have sa: "consistent (toggleBrownNoise s)"
        using assms by (rule consistent_toggleBrownNoise)
      have "\<not> isBinauralPlaying
              (if isBinauralPlaying (toggleBrownNoise s)
               then toggleBinauralBeats (toggleBrownNoise s) else toggleBrownNoise s)"
        by (simp add: toggleBinauralBeats_flags [OF sa])
      then show ?thesis
        unfolding t_def None Let_def option.case by simp
    next
      case (Some v)
      define sa where "sa = s\<lparr> beatFrequency := v \<rparr>"
      have sa: "consistent sa"
        unfolding sa_def using assms by (rule consistent_beatFrequency)
      define sb where "sb = (if isBrownNoisePlaying sa then toggleBrownNoise sa else sa)"
      have sb: "consistent sb" "\<not> isBrownNoisePlaying sb"
        unfolding sb_def using sa
        by (simp_all add: consistent_toggleBrownNoise toggleBrownNoise_flags [OF sa])
      have "\<not> isBrownNoisePlaying
              (if \<not> isBinauralPlaying sb then toggleBinauralBeats sb else updateBinauralBeats sb)"
        using sb(2) by (simp add: toggleBinauralBeats_flags [OF sb(1)] updateBinauralBeats_flags)
      then show ?thesis
        unfolding t_def Some Let_def option.case sa_def [symmetric] sb_def [symmetric] by simp
    qed
    show "\<not> (isBrownNoisePlaying (setBrainwavePreset frequency s) \<and>
             isBinauralPlaying (setBrainwavePreset frequency s))"
      unfolding res redraw_policy_flags by (rule excl)
  }
qed

theorem setBrainwavePreset_switches_modes_witness:
  "consistent (toggleBrownNoise (initial 2 (\<lambda>i. 0) True True)) \<and>
   isBrownNoisePlaying (toggleBrownNoise (initial 2 (\<lambda>i. 0) True True)) \<and>
   \<not> isBinauralPlaying (toggleBrownNoise (initial 2 (\<lambda>i. 0) True True)) \<and>
   (\<exists>n l. brownNoiseNode (toggleBrownNoise (initial 2 (\<lambda>i. 0) True True)) = Some n \<and>
          leftOscillator (setBrainwavePreset (Some 4)
            (toggleBrownNoise (initial 2 (\<lambda>i. 0) True True))) = Some l \<and>
          rightOscillator (setBrainwavePreset (Some 4)
            (toggleBrownNoise (initial 2 (\<lambda>i. 0) True True))) = Some (Suc l)) \<and>
   consistent (toggleBinauralBeats (initial 2 (\<lambda>i. 0) True True)) \<and>
   isBinauralPlaying (toggleBinauralBeats (initial 2 (\<lambda>i. 0) True True)) \<and>
   \<not> isBrownNoisePlaying (toggleBinauralBeats (initial 2 (\<lambda>i. 0) True True)) \<and>
   (\<exists>l r n. leftOscillator (toggleBinauralBeats (initial 2 (\<lambda>i. 0) True True)) = Some l \<and>
            rightOscillator (toggleBinauralBeats (initial 2 (\<lambda>i. 0) True True)) = Some r \<and>
            brownNoiseNode (setBrainwavePreset None
              (toggleBinauralBeats (initial 2 (\<lambda>i. 0) True True))) = Some n)"
proof -
  define w1 where "w1 = toggleBrownNoise (initial 2 (\<lambda>i. 0) True True)"
  define w2 where "w2 = toggleBinauralBeats (initial 2 (\<lambda>i. 0) True True)"
  have c1: "consistent w1"
    unfolding w1_def by (rule consistent_toggleBrownNoise [OF consistent_initial])
  have c2: "consistent w2"
    unfolding w2_def by (rule consistent_toggleBinauralBeats [OF consistent_initial])
  have f1: "isBrownNoisePlaying w1 \<and> \<not> isBinauralPlaying w1"
    unfolding w1_def by (simp add: toggleBrownNoise_flags [OF consistent_initial] initial_flags)
  have f2: "isBinauralPlaying w2 \<and> \<not> isBrownNoisePlaying w2"
    unfolding w2_def by (simp add: toggleBinauralBeats_flags [OF consistent_initial] initial_flags)
  from setBrainwavePreset_switches_modes [OF c1, where f = 4 and frequency = None,
      THEN conjunct1, THEN mp, OF f1]
  obtain n l where a: "brownNoiseNode w1 = Some n"
    "leftOscillator (setBrainwavePreset (Some 4) w1) = Some l"
    "rightOscillator (setBrainwavePreset (Some 4) w1) = Some (Suc l)"
    by (elim exE conjE) (rule that)
  from setBrainwavePreset_switches_modes [OF c2, where f = 4 and frequency = None,
      THEN conjunct2, THEN conjunct1, THEN mp, OF f2]
  obtain l' r' n' where b: "leftOscillator w2 = Some l'" "rightOscillator w2 = Some r'"
    "brownNoiseNode (setBrainwavePreset None w2) = Some n'"
    by (elim exE conjE) (rule that)
  have A: "\<exists>n l. brownNoiseNode w1 = Some n \<and>
          leftOscillator (setBrainwavePreset (Some 4) w1) = Some l \<and>
          rightOscillator (setBrainwavePreset (Some 4) w1) = Some (Suc l)"
    using a by (intro exI conjI)
  have B: "\<exists>l r n. leftOscillator w2 = Some l \<and> rightOscillator w2 = Some r \<and>
            brownNoiseNode (setBrainwavePreset None w2) = Some n"
    using b by (intro exI conjI)
  from c1 f1 A c2 f2 B show ?thesis
    unfolding w1_def w2_def by (intro conjI) simp_all
qed

end
